theory Spec2Isabelle
  imports Complex_Main "HOL-Library.Multiset" "HOL-Library.Sublist"
begin

section \<open>Values of the raw evidence\<close>

text \<open>
  The raw evidence is read with \<open>json.load\<close>, so a metric value is one of the Python
  values a JSON document decodes to. A float is given by the real number it stands for,
  and a float in the evidence is a finite one. Rounding is left aside; leaving the range
  of the floats is not: the conversion of an integer beyond the range, a quotient of
  integers beyond it and \<open>math.exp\<close> above it raise \<open>OverflowError\<close>, the sum of a
  trend series beyond it is an infinity, and \<open>math.exp\<close> below the smallest float gives
  0.0. The sums and products of the score formulas themselves, which raise nothing and
  end in \<open>clamp01\<close>, are taken exact.
\<close>

datatype json =
    JNull
  | JBool bool
  | JInt int
  | JFloat real
  | JStr string
  | JList "json list"
  | JDict "(string \<times> json) list"

datatype error =
    TypeError
  | AttributeError
  | IndexError
  | ValueError
  | ZeroDivisionError
  | OverflowError
  | RuntimeError
  | IntegrityError

text \<open>Python truthiness, as used by \<open>x or y\<close> and \<open>if x\<close>.\<close>

fun truthy :: "json \<Rightarrow> bool" where
  "truthy JNull = False"
| "truthy (JBool b) = b"
| "truthy (JInt n) = (n \<noteq> 0)"
| "truthy (JFloat r) = (r \<noteq> 0)"
| "truthy (JStr s) = (s \<noteq> [])"
| "truthy (JList l) = (l \<noteq> [])"
| "truthy (JDict d) = (d \<noteq> [])"

definition py_or :: "json \<Rightarrow> json \<Rightarrow> json" where
  "py_or a b = (if truthy a then a else b)"

text \<open>\<open>d.get(k)\<close>: the value stored under \<open>k\<close>, \<open>None\<close> when the key is absent.\<close>

definition dget :: "(string \<times> json) list \<Rightarrow> string \<Rightarrow> json" where
  "dget d k = (case map_of d k of None \<Rightarrow> JNull | Some v \<Rightarrow> v)"

text \<open>
  The largest float is \<open>2 ^ 1024 - 2 ^ 971\<close>; a number whose magnitude reaches
  \<open>float_lim\<close>, halfway to \<open>2 ^ 1024\<close>, rounds out of the range. The smallest positive
  float is \<open>1 / 2 ^ 1074\<close>; a positive number up to \<open>float_tiny\<close>, half of it, rounds
  to 0.0.
\<close>

definition float_lim :: real where
  "float_lim = 2 ^ 1024 - 2 ^ 970"

definition float_tiny :: real where
  "float_tiny = 1 / 2 ^ 1075"

definition in_float_range :: "int \<Rightarrow> bool" where
  "in_float_range n = (\<bar>real_of_int n\<bar> < float_lim)"

text \<open>
  A value passed where a float is needed (\<open>math.log1p(x)\<close>, \<open>math.tanh(x)\<close>, the
  integer operand of an arithmetic operation with a float): a float is taken as it
  is, an integer or a boolean is converted and raises \<open>OverflowError\<close> beyond the
  range, anything else raises \<open>TypeError\<close>.
\<close>

fun as_float :: "json \<Rightarrow> error + real" where
  "as_float (JBool b) = Inr (if b then 1 else 0)"
| "as_float (JInt n) = (if in_float_range n then Inr (real_of_int n) else Inl OverflowError)"
| "as_float (JFloat r) = Inr r"
| "as_float _ = Inl TypeError"

text \<open>
  The exact value of a number, as the comparisons \<open>x > 0\<close> and \<open>max(0.0, x)\<close> see it
  (Python compares an integer with a float exactly, without converting it), and the
  value of an integer or boolean.
\<close>

fun num_val :: "json \<Rightarrow> real option" where
  "num_val (JBool b) = Some (if b then 1 else 0)"
| "num_val (JInt n) = Some (real_of_int n)"
| "num_val (JFloat r) = Some r"
| "num_val _ = None"

fun int_val :: "json \<Rightarrow> int option" where
  "int_val (JBool b) = Some (if b then 1 else 0)"
| "int_val (JInt n) = Some n"
| "int_val _ = None"

text \<open>
  One evidence item. The top-level fields have the types that \<open>EvidenceItem\<close> of
  \<open>models.py\<close> declares (\<open>None\<close> is an absent key or a null); \<open>metrics\<close> keeps the
  decoded value itself (\<open>None\<close>: no such key).
\<close>

record item =
  platform :: "string option"
  source_id :: "string option"
  source_url :: "string option"
  title :: "string option"
  keyword :: "string option"
  metrics :: "json option"

section \<open>Scoring (\<open>app/processing/score.py\<close>)\<close>

text \<open>\<open>max(0.0, x)\<close>: \<open>x\<close> itself when it is greater than 0.0, else 0.0.\<close>

definition py_max0 :: "json \<Rightarrow> error + json" where
  "py_max0 x = (case num_val x of
                  None \<Rightarrow> Inl TypeError
                | Some r \<Rightarrow> Inr (if 0 < r then x else JFloat 0))"

text \<open>\<open>log1p_norm(x) = math.log1p(max(0.0, x))\<close>\<close>

definition log1p_norm :: "json \<Rightarrow> error + real" where
  "log1p_norm x =
     (case py_max0 x of
        Inl e \<Rightarrow> Inl e
      | Inr y \<Rightarrow> (case as_float y of Inl e \<Rightarrow> Inl e | Inr r \<Rightarrow> Inr (ln (1 + r))))"

definition clamp01 :: "real \<Rightarrow> real" where
  "clamp01 x = max 0 (min 1 x)"

text \<open>
  \<open>math.exp(x)\<close>: \<open>OverflowError\<close> when the result leaves the range of the floats, 0.0
  when it is below the smallest float.
\<close>

definition py_exp :: "real \<Rightarrow> error + real" where
  "py_exp x = (if float_lim \<le> exp x then Inl OverflowError
               else if exp x \<le> float_tiny then Inr 0
               else Inr (exp x))"

text \<open>
  \<open>datetime.fromisoformat\<close> belongs to the Python library; it is a parameter here. A
  parsed timestamp is naive or timezone-aware; an aware one is given by its instant, in
  seconds. \<open>datetime.now(timezone.utc)\<close> is the parameter \<open>now\<close>, an aware instant.
\<close>

datatype datetime = Naive real | Aware real

type_synonym isoparser = "string \<Rightarrow> datetime option"

text \<open>\<open>s.replace("Z", "+00:00")\<close>\<close>

definition replace_Z :: "string \<Rightarrow> string" where
  "replace_Z s = concat (map (\<lambda>c. if c = CHR ''Z'' then ''+00:00'' else [c]) s)"

text \<open>
  \<open>decay_multiplier(published_iso, half_life_days)\<close>. Inside the \<open>try\<close>: a value that is
  not a string has no \<open>replace\<close>, a string that does not parse raises; both return 1.0.
  Outside it: subtracting a naive timestamp from the aware \<open>now\<close> raises \<open>TypeError\<close>,
  a zero half-life divides by zero, and \<open>math.exp\<close> raises \<open>OverflowError\<close> for a
  timestamp far enough in the future. The half-life is an integer within the range of
  the floats.
\<close>

definition decay_multiplier :: "isoparser \<Rightarrow> real \<Rightarrow> json \<Rightarrow> int \<Rightarrow> error + real" where
  "decay_multiplier fromiso now published_iso half_life_days =
     (case published_iso of
        JStr s \<Rightarrow>
          (case fromiso (replace_Z s) of
             None \<Rightarrow> Inr 1
           | Some (Naive t) \<Rightarrow> Inl TypeError
           | Some (Aware t) \<Rightarrow>
               (let age_days = (now - t) / 86400 in
                if half_life_days = 0 then Inl ZeroDivisionError
                else py_exp (- ln 2 * age_days / real_of_int half_life_days)))
      | _ \<Rightarrow> Inr 1)"

record item_scores =
  V :: real
  E :: real
  T :: real
  D :: real

text \<open>\<open>item.get("metrics", {})\<close>: the default only replaces an absent key.\<close>

definition item_metrics :: "item \<Rightarrow> error + (string \<times> json) list" where
  "item_metrics it =
     (case metrics it of
        None \<Rightarrow> Inr []
      | Some (JDict d) \<Rightarrow> Inr d
      | Some _ \<Rightarrow> Inl AttributeError)"

text \<open>
  The loop over \<open>iot.values()\<close> of a GoogleTrends item: a dict contributes its first
  value (\<open>IndexError\<close> when it is empty), anything else itself.
\<close>

fun iot_vals :: "json list \<Rightarrow> error + json list" where
  "iot_vals [] = Inr []"
| "iot_vals (v # vs) =
     (case (case v of
              JDict [] \<Rightarrow> Inl IndexError
            | JDict (kv # _) \<Rightarrow> Inr (snd kv)
            | _ \<Rightarrow> Inr v) of
        Inl e \<Rightarrow> Inl e
      | Inr x \<Rightarrow> (case iot_vals vs of Inl e \<Rightarrow> Inl e | Inr xs \<Rightarrow> Inr (x # xs)))"

text \<open>
  The running value of \<open>sum(vals)\<close>: an integer as long as only integers were added, a
  float afterwards, an infinity once a sum of floats has left the range. Adding an
  integer to a float converts the integer first.
\<close>

datatype pynum = PInt int | PFloat real | PInf

definition float_sum :: "real \<Rightarrow> real \<Rightarrow> pynum" where
  "float_sum a b = (if float_lim \<le> \<bar>a + b\<bar> then PInf else PFloat (a + b))"

definition pynum_add :: "pynum \<Rightarrow> json \<Rightarrow> error + pynum" where
  "pynum_add acc v =
     (case int_val v of
        Some n \<Rightarrow>
          (case acc of
             PInt a \<Rightarrow> Inr (PInt (a + n))
           | PFloat a \<Rightarrow>
               if in_float_range n then Inr (float_sum a (real_of_int n)) else Inl OverflowError
           | PInf \<Rightarrow> if in_float_range n then Inr PInf else Inl OverflowError)
      | None \<Rightarrow>
          (case v of
             JFloat r \<Rightarrow>
               (case acc of
                  PInt a \<Rightarrow>
                    if in_float_range a then Inr (float_sum (real_of_int a) r)
                    else Inl OverflowError
                | PFloat a \<Rightarrow> Inr (float_sum a r)
                | PInf \<Rightarrow> Inr PInf)
           | _ \<Rightarrow> Inl TypeError))"

text \<open>\<open>sum(vals)\<close>, from the left, starting at the integer 0.\<close>

fun py_sum :: "pynum \<Rightarrow> json list \<Rightarrow> error + pynum" where
  "py_sum acc [] = Inr acc"
| "py_sum acc (v # vs) =
     (case pynum_add acc v of Inl e \<Rightarrow> Inl e | Inr s \<Rightarrow> py_sum s vs)"

text \<open>\<open>int(x)\<close> of a float: truncation towards zero.\<close>

definition trunc :: "real \<Rightarrow> int" where
  "trunc x = (if 0 \<le> x then \<lfloor>x\<rfloor> else \<lceil>x\<rceil>)"

text \<open>
  \<open>int(s / n)\<close> for the sum \<open>s\<close> and the positive integer \<open>n\<close>: the true division of
  two integers raises \<open>OverflowError\<close> when the quotient leaves the range, and \<open>int\<close> of
  an infinity raises \<open>OverflowError\<close>.
\<close>

definition int_of_mean :: "pynum \<Rightarrow> nat \<Rightarrow> error + int" where
  "int_of_mean s n =
     (case s of
        PInt a \<Rightarrow>
          if float_lim \<le> \<bar>real_of_int a / real n\<bar> then Inl OverflowError
          else Inr (trunc (real_of_int a / real n))
      | PFloat a \<Rightarrow> Inr (trunc (a / real n))
      | PInf \<Rightarrow> Inl OverflowError)"

definition trends_views :: "(string \<times> json) list \<Rightarrow> error + json" where
  "trends_views m =
     (case (case map_of m ''interest_over_time'' of
              None \<Rightarrow> Inr []
            | Some (JDict iot) \<Rightarrow> Inr iot
            | Some _ \<Rightarrow> Inl AttributeError) of
        Inl e \<Rightarrow> Inl e
      | Inr iot \<Rightarrow>
          (case iot_vals (map snd iot) of
             Inl e \<Rightarrow> Inl e
           | Inr vals \<Rightarrow>
               (case py_sum (PInt 0) vals of
                  Inl e \<Rightarrow> Inl e
                | Inr s \<Rightarrow>
                    (case int_of_mean s (max 1 (length vals)) of
                       Inl e \<Rightarrow> Inl e
                     | Inr k \<Rightarrow> Inr (JInt k)))))"

text \<open>
  \<open>a / b\<close>: between two integers the quotient is computed exactly and raises
  \<open>OverflowError\<close> when it leaves the range; with a float, the other operand is
  converted first.
\<close>

definition py_truediv :: "json \<Rightarrow> json \<Rightarrow> error + real" where
  "py_truediv a b =
     (case (int_val a, int_val b) of
        (Some ia, Some ib) \<Rightarrow>
          if ib = 0 then Inl ZeroDivisionError
          else if float_lim \<le> \<bar>real_of_int ia / real_of_int ib\<bar> then Inl OverflowError
          else Inr (real_of_int ia / real_of_int ib)
      | _ \<Rightarrow>
          (case as_float a of
             Inl e \<Rightarrow> Inl e
           | Inr fa \<Rightarrow>
               (case as_float b of
                  Inl e \<Rightarrow> Inl e
                | Inr fb \<Rightarrow> if fb = 0 then Inl ZeroDivisionError else Inr (fa / fb))))"

text \<open>\<open>(x / views) if views > 0 else 0.0\<close>\<close>

definition ratio_to_views :: "json \<Rightarrow> json \<Rightarrow> error + real" where
  "ratio_to_views x views =
     (case num_val views of
        None \<Rightarrow> Inl TypeError
      | Some v \<Rightarrow> if 0 < v then py_truediv x views else Inr 0)"

text \<open>
  The recency part of \<open>compute_item_scores\<close>: the timestamp is \<open>published_at\<close>, else
  \<open>first_post_ts\<close>; every exception of \<open>decay_multiplier\<close> is caught and leaves
  \<open>D = 1.0\<close>.
\<close>

definition recency_timestamp :: "(string \<times> json) list \<Rightarrow> json" where
  "recency_timestamp m = py_or (dget m ''published_at'') (py_or (dget m ''first_post_ts'') JNull)"

definition item_decay :: "isoparser \<Rightarrow> real \<Rightarrow> (string \<times> json) list \<Rightarrow> real" where
  "item_decay fromiso now m =
     (let pub = recency_timestamp m in
      if truthy pub then
        (case decay_multiplier fromiso now pub 30 of Inl e \<Rightarrow> 1 | Inr d \<Rightarrow> d)
      else 1)"

definition compute_item_scores :: "isoparser \<Rightarrow> real \<Rightarrow> item \<Rightarrow> error + item_scores" where
  "compute_item_scores fromiso now it =
     (case item_metrics it of
        Inl e \<Rightarrow> Inl e
      | Inr m \<Rightarrow>
     (case (if platform it = Some ''GoogleTrends'' then trends_views m
            else Inr (py_or (dget m ''views'') (JInt 0))) of
        Inl e \<Rightarrow> Inl e
      | Inr views \<Rightarrow>
     (case log1p_norm views of
        Inl e \<Rightarrow> Inl e
      | Inr V_raw \<Rightarrow>
     (let V_norm = clamp01 (V_raw / 10);
          likes = py_or (dget m ''likes'') (JInt 0);
          comments = py_or (dget m ''comments'') (py_or (dget m ''replies'') (JInt 0))
      in
     (case ratio_to_views likes views of
        Inl e \<Rightarrow> Inl e
      | Inr like_to_view \<Rightarrow>
     (case ratio_to_views comments views of
        Inl e \<Rightarrow> Inl e
      | Inr comment_to_view \<Rightarrow>
     (let E_raw = 6 / 10 * like_to_view + 4 / 10 * comment_to_view;
          E_norm = clamp01 (E_raw * 10);
          growth = py_or (dget m ''growth_pct_30d'') (JFloat 0)
      in
     (case as_float growth of
        Inl e \<Rightarrow> Inl e
      | Inr g \<Rightarrow>
     (let T_raw = tanh g;
          T_norm = clamp01 ((T_raw + 1) / 2);
          Dv = item_decay fromiso now m
      in Inr \<lparr>V = V_norm, E = E_norm, T = T_norm, D = Dv\<rparr>)))))))))"

record weights =
  wV :: real
  wE :: real
  wT :: real

definition default_weights :: weights where
  "default_weights = \<lparr>wV = 5 / 10, wE = 3 / 10, wT = 2 / 10\<rparr>"

text \<open>The loop of \<open>aggregate_workflow\<close>: the first item that raises ends it.\<close>

fun score_all :: "isoparser \<Rightarrow> real \<Rightarrow> item list \<Rightarrow> error + item_scores list" where
  "score_all fromiso now [] = Inr []"
| "score_all fromiso now (it # its) =
     (case compute_item_scores fromiso now it of
        Inl e \<Rightarrow> Inl e
      | Inr s \<Rightarrow>
          (case score_all fromiso now its of Inl e \<Rightarrow> Inl e | Inr ss \<Rightarrow> Inr (s # ss)))"

definition mean :: "real list \<Rightarrow> real" where
  "mean lst = (if lst \<noteq> [] then sum_list lst / real (length lst) else 0)"

record score_components =
  cV :: real
  cE :: real
  cT :: real
  c_decay_multiplier :: real

record aggregate =
  popularity_score :: real
  components :: score_components

definition aggregate_workflow ::
  "isoparser \<Rightarrow> real \<Rightarrow> item list \<Rightarrow> weights option \<Rightarrow> error + aggregate" where
  "aggregate_workflow fromiso now evidence weights_opt =
     (let weights = (case weights_opt of None \<Rightarrow> default_weights | Some w \<Rightarrow> w) in
      case score_all fromiso now evidence of
        Inl e \<Rightarrow> Inl e
      | Inr ss \<Rightarrow>
          (let Vw = (if map V ss \<noteq> [] then mean (map V ss) else 0);
               Ew = (if map E ss \<noteq> [] then mean (map E ss) else 0);
               Tw = (if map T ss \<noteq> [] then mean (map T ss) else 0);
               Dw = (if map D ss \<noteq> [] then mean (map D ss) else 1);
               raw = wV weights * Vw + wE weights * Ew + wT weights * Tw;
               score = clamp01 (raw * Dw)
           in Inr \<lparr>popularity_score = score,
                    components = \<lparr>cV = Vw, cE = Ew, cT = Tw, c_decay_multiplier = Dw\<rparr>\<rparr>))"

text \<open>
  Evidence items in the shape of section 3 of the specification, for which no operation
  of the scoring raises: \<open>metrics\<close> is a mapping (or absent); the counts and the
  growth are absent or numbers, an integer among them within the range of the floats;
  every entry of a trend series is a number or a non-empty mapping whose first value
  is a number, and the magnitudes of these numbers add up to less than \<open>float_lim\<close>.
\<close>

fun numeric :: "json \<Rightarrow> bool" where
  "numeric (JBool _) = True"
| "numeric (JInt n) = in_float_range n"
| "numeric (JFloat _) = True"
| "numeric _ = False"

definition count_ok :: "json \<Rightarrow> bool" where
  "count_ok v = (v = JNull \<or> numeric v)"

fun series_ok :: "json \<Rightarrow> bool" where
  "series_ok (JDict []) = False"
| "series_ok (JDict (kv # _)) = numeric (snd kv)"
| "series_ok v = numeric v"

fun series_val :: "json \<Rightarrow> json" where
  "series_val (JDict (kv # _)) = snd kv"
| "series_val v = v"

definition abs_val :: "json \<Rightarrow> real" where
  "abs_val v = (case num_val v of None \<Rightarrow> 0 | Some r \<Rightarrow> \<bar>r\<bar>)"

definition wf_metrics :: "string option \<Rightarrow> (string \<times> json) list \<Rightarrow> bool" where
  "wf_metrics p m =
     ((if p = Some ''GoogleTrends'' then
         (case map_of m ''interest_over_time'' of
            None \<Rightarrow> True
          | Some (JDict iot) \<Rightarrow>
              list_all series_ok (map snd iot)
              \<and> sum_list (map (\<lambda>kv. abs_val (series_val (snd kv))) iot) < float_lim
          | Some _ \<Rightarrow> False)
       else count_ok (dget m ''views''))
      \<and> count_ok (dget m ''likes'')
      \<and> count_ok (dget m ''comments'')
      \<and> count_ok (dget m ''replies'')
      \<and> count_ok (dget m ''growth_pct_30d''))"

definition wf_item :: "item \<Rightarrow> bool" where
  "wf_item it =
     (case metrics it of
        None \<Rightarrow> wf_metrics (platform it) []
      | Some (JDict d) \<Rightarrow> wf_metrics (platform it) d
      | Some _ \<Rightarrow> False)"

text \<open>The finite value of a running sum.\<close>

fun acc_val :: "pynum \<Rightarrow> real" where
  "acc_val (PInt a) = real_of_int a"
| "acc_val (PFloat a) = a"
| "acc_val PInf = 0"

section \<open>Grouping (\<open>app/processing/ingest.py\<close>)\<close>

text \<open>
  Strings are lists of bytes and are taken to be ASCII. \<open>\s\<close> of a \<open>str\<close> pattern and
  \<open>str.strip\<close> agree on the ASCII whitespace: 9 to 13, 28 to 31 and the space.
\<close>

definition is_space :: "char \<Rightarrow> bool" where
  "is_space c = (let n = (of_char c :: nat) in (9 \<le> n \<and> n \<le> 13) \<or> (28 \<le> n \<and> n \<le> 32))"

definition is_digit :: "char \<Rightarrow> bool" where
  "is_digit c = (let n = (of_char c :: nat) in 48 \<le> n \<and> n \<le> 57)"

definition is_lower :: "char \<Rightarrow> bool" where
  "is_lower c = (let n = (of_char c :: nat) in 97 \<le> n \<and> n \<le> 122)"

definition lower_char :: "char \<Rightarrow> char" where
  "lower_char c = (let n = (of_char c :: nat) in if 65 \<le> n \<and> n \<le> 90 then char_of (n + 32) else c)"

text \<open>\<open>re.sub(r"\s+", " ", t)\<close>: every maximal run of whitespace becomes one space.\<close>

function collapse_ws :: "string \<Rightarrow> string" where
  "collapse_ws [] = []"
| "collapse_ws (c # cs) =
     (if is_space c then CHR '' '' # collapse_ws (dropWhile is_space cs)
      else c # collapse_ws cs)"
  by pat_completeness auto
termination
  by (relation "measure length") (auto simp: le_imp_less_Suc length_dropWhile_le)

definition strip :: "string \<Rightarrow> string" where
  "strip s = rev (dropWhile is_space (rev (dropWhile is_space s)))"

definition normalize_title :: "string \<Rightarrow> string" where
  "normalize_title t =
     (if t = [] then []
      else
        (let t1 = map lower_char t;
             t2 = map (\<lambda>c. if is_lower c \<or> is_digit c \<or> is_space c then c else CHR '' '') t1
         in strip (collapse_ws t2)))"

text \<open>\<open>a or b\<close> on optional strings: \<open>None\<close> and the empty string are falsy.\<close>

definition str_or :: "string option \<Rightarrow> string option \<Rightarrow> string option" where
  "str_or a b = (case a of Some (c # cs) \<Rightarrow> a | _ \<Rightarrow> b)"

text \<open>\<open>it.get("title") or it.get("keyword") or ""\<close>\<close>

definition title_or_keyword :: "item \<Rightarrow> string" where
  "title_or_keyword it = (case str_or (title it) (str_or (keyword it) (Some [])) of
                            None \<Rightarrow> [] | Some s \<Rightarrow> s)"

text \<open>\<open>groups[key].append(it)\<close> on a dict that keeps insertion order.\<close>

fun append_to :: "('k \<times> 'a list) list \<Rightarrow> 'k \<Rightarrow> 'a \<Rightarrow> ('k \<times> 'a list) list" where
  "append_to [] k x = [(k, [x])]"
| "append_to ((k', xs) # g) k x =
     (if k' = k then (k', xs @ [x]) # g else (k', xs) # append_to g k x)"

text \<open>
  The loop of \<open>group_evidence\<close>. \<open>uuid.uuid4()\<close> draws from outside the program: the
  \<open>n\<close>-th draw of a run is \<open>uuids n\<close>, and the loop counts the draws.
\<close>

fun group_loop ::
  "(nat \<Rightarrow> string) \<Rightarrow> item list \<Rightarrow> nat \<Rightarrow> (string \<times> item list) list
     \<Rightarrow> (string \<times> item list) list" where
  "group_loop uuids [] n groups = groups"
| "group_loop uuids (it # its) n groups =
     (let key = normalize_title (title_or_keyword it) in
      if key = [] then
        (case str_or (source_id it) None of
           Some sid \<Rightarrow> group_loop uuids its n (append_to groups sid it)
         | None \<Rightarrow> group_loop uuids its (Suc n) (append_to groups (uuids n) it))
      else group_loop uuids its n (append_to groups key it))"

definition group_evidence :: "(nat \<Rightarrow> string) \<Rightarrow> item list \<Rightarrow> (string \<times> item list) list" where
  "group_evidence uuids items = group_loop uuids items 0 []"

text \<open>
  The key that the loop gives to each item, as a list in the order of the items: the
  same case distinction, without the dict.
\<close>

definition base_key :: "item \<Rightarrow> string option" where
  "base_key it =
     (let key = normalize_title (title_or_keyword it) in
      if key = [] then str_or (source_id it) None else Some key)"

fun item_keys :: "(nat \<Rightarrow> string) \<Rightarrow> nat \<Rightarrow> item list \<Rightarrow> string list" where
  "item_keys uuids n [] = []"
| "item_keys uuids n (it # its) =
     (case base_key it of
        Some k \<Rightarrow> k # item_keys uuids n its
      | None \<Rightarrow> uuids n # item_keys uuids (Suc n) its)"

text \<open>
  The draws of a run are fresh: pairwise different, and different from every key that
  comes from a title or a \<open>source_id\<close> of the evidence.
\<close>

definition fresh :: "(nat \<Rightarrow> string) \<Rightarrow> item list \<Rightarrow> bool" where
  "fresh uuids items =
     (let us = map uuids [0 ..< length (filter (\<lambda>it. base_key it = None) items)] in
      distinct us \<and> list_all (\<lambda>it. case base_key it of None \<Rightarrow> True | Some k \<Rightarrow> k \<notin> set us) items)"

text \<open>
  The same loop over a list of items already paired with their keys, and the items
  that carry a given key, in the order of the input.
\<close>

fun group_pairs :: "('k \<times> 'a) list \<Rightarrow> ('k \<times> 'a list) list \<Rightarrow> ('k \<times> 'a list) list" where
  "group_pairs [] g = g"
| "group_pairs ((k, x) # kxs) g = group_pairs kxs (append_to g k x)"

definition members :: "string list \<Rightarrow> item list \<Rightarrow> string \<Rightarrow> item list" where
  "members ks items k = map snd (filter (\<lambda>p. fst p = k) (zip ks items))"

section \<open>Summed totals of a group (\<open>run_ingest\<close>, lines 124 to 148)\<close>

text \<open>
  \<open>int(s)\<close> of a string: surrounding whitespace is dropped, a sign may come first, and
  single underscores may separate the decimal digits.
\<close>

fun parse_digits :: "bool \<Rightarrow> int \<Rightarrow> string \<Rightarrow> int option" where
  "parse_digits prev acc [] = (if prev then Some acc else None)"
| "parse_digits prev acc (c # cs) =
     (if is_digit c then parse_digits True (acc * 10 + (int (of_char c) - 48)) cs
      else if c = CHR ''_'' \<and> prev \<and> (case cs of [] \<Rightarrow> False | d # _ \<Rightarrow> is_digit d)
           then parse_digits False acc cs
      else None)"

definition int_of_str :: "string \<Rightarrow> int option" where
  "int_of_str s =
     (case strip s of
        [] \<Rightarrow> None
      | c # cs \<Rightarrow>
          if c = CHR ''-'' then map_option uminus (parse_digits False 0 cs)
          else if c = CHR ''+'' then parse_digits False 0 cs
          else parse_digits False 0 (c # cs))"

fun py_int :: "json \<Rightarrow> error + int" where
  "py_int (JInt n) = Inr n"
| "py_int (JBool b) = Inr (if b then 1 else 0)"
| "py_int (JFloat r) = Inr (trunc r)"
| "py_int (JStr s) = (case int_of_str s of None \<Rightarrow> Inl ValueError | Some n \<Rightarrow> Inr n)"
| "py_int _ = Inl TypeError"



text \<open>\<open>try: total += int(<expr>) except Exception: pass\<close>\<close>

definition add_or_pass :: "int \<Rightarrow> error + json \<Rightarrow> int" where
  "add_or_pass tot v =
     (case v of
        Inl e \<Rightarrow> tot
      | Inr x \<Rightarrow> (case py_int x of Inl e \<Rightarrow> tot | Inr n \<Rightarrow> tot + n))"







text \<open>
  What one round of \<open>try: total += int(v or 0)\<close> adds for the value \<open>v\<close>, and the
  mapping that the lookups of a round read: the item's \<open>metrics\<close> when that is a
  mapping, nothing otherwise (every lookup then raises inside its \<open>try\<close>).
\<close>

definition contribution :: "json \<Rightarrow> int" where
  "contribution v = add_or_pass 0 (Inr (py_or v (JInt 0)))"


section \<open>Fetch clients (\<open>_get\<close> of the two collectors)\<close>

text \<open>
  What one \<open>client.get\<close> gives back: a response with its status code and its body as
  \<open>resp.json()\<close> decodes it (\<open>None\<close>: the body does not parse), or a transport error
  (\<open>httpx.RequestError\<close>). The transport answers the \<open>k\<close>-th request of a call with
  \<open>transport k\<close>. The delays of \<open>asyncio.sleep\<close> do not enter the returned value; the
  YouTube client's are recorded, the Discourse client's depend on the clock.
\<close>

datatype response = Status nat "json option" | TransportError

text \<open>\<open>resp.raise_for_status()\<close> raises \<open>httpx.HTTPStatusError\<close> outside 2xx.\<close>

definition raises_for_status :: "nat \<Rightarrow> bool" where
  "raises_for_status code = (\<not> (200 \<le> code \<and> code < 300))"

record yt_state =
  key_index :: nat
  backoff :: nat
  slept :: "nat list"
  requests :: nat

definition yt_sleep :: "yt_state \<Rightarrow> yt_state" where
  "yt_sleep st = st\<lparr>slept := slept st @ [backoff st], backoff := backoff st * 2\<rparr>"

text \<open>The rotation of the key index, when \<open>YOUTUBE_API_KEYS\<close> (of length \<open>n_keys\<close>) is not empty.\<close>

definition yt_rotate :: "nat \<Rightarrow> yt_state \<Rightarrow> yt_state" where
  "yt_rotate n_keys st =
     (if n_keys \<noteq> 0 then st\<lparr>key_index := (key_index st + 1) mod n_keys\<rparr> else st)"

fun yt_loop ::
  "nat \<Rightarrow> (nat \<Rightarrow> response) \<Rightarrow> nat \<Rightarrow> yt_state \<Rightarrow> (error + json) \<times> yt_state" where
  "yt_loop n_keys transport 0 st = (Inl RuntimeError, st)"
| "yt_loop n_keys transport (Suc left) st =
     (let resp = transport (requests st);
          st1 = st\<lparr>requests := Suc (requests st)\<rparr>
      in case resp of
           TransportError \<Rightarrow> yt_loop n_keys transport left (yt_sleep st1)
         | Status code body \<Rightarrow>
             if code = 200 then
               (case body of None \<Rightarrow> (Inl ValueError, st1) | Some j \<Rightarrow> (Inr j, st1))
             else if code = 429 \<or> code = 403 then
               yt_loop n_keys transport left (yt_sleep (yt_rotate n_keys st1))
             else if raises_for_status code then
               yt_loop n_keys transport left (yt_sleep st1)
             else yt_loop n_keys transport left st1)"

text \<open>\<open>youtube_collector._get(client, url, params, retries)\<close>\<close>

definition yt_get ::
  "nat \<Rightarrow> nat \<Rightarrow> (nat \<Rightarrow> response) \<Rightarrow> nat \<Rightarrow> (error + json) \<times> yt_state" where
  "yt_get n_keys key0 transport retries =
     yt_loop n_keys transport retries \<lparr>key_index = key0, backoff = 1, slept = [], requests = 0\<rparr>"

text \<open>
  \<open>discourse_collector._get(client, url, params, retries)\<close>: the result and the number
  of requests made. Every exception of a request is caught inside the loop.
\<close>

fun discourse_loop :: "(nat \<Rightarrow> response) \<Rightarrow> nat \<Rightarrow> nat \<Rightarrow> json \<times> nat" where
  "discourse_loop transport 0 k = (JDict [], k)"
| "discourse_loop transport (Suc left) k =
     (case transport k of
        TransportError \<Rightarrow> discourse_loop transport left (Suc k)
      | Status code body \<Rightarrow>
          if code = 200 then
            (case body of None \<Rightarrow> (JDict [], Suc k) | Some j \<Rightarrow> (j, Suc k))
          else if code = 429 \<or> code = 503 then discourse_loop transport left (Suc k)
          else discourse_loop transport left (Suc k))"

definition discourse_get :: "(nat \<Rightarrow> response) \<Rightarrow> nat \<Rightarrow> json \<times> nat" where
  "discourse_get transport retries = discourse_loop transport retries 0"

text \<open>A transport that answers \<open>n\<close> times with \<open>code\<close> and then with 200 and \<open>payload\<close>.\<close>

definition busy_then_ok :: "nat \<Rightarrow> nat \<Rightarrow> json \<Rightarrow> nat \<Rightarrow> response" where
  "busy_then_ok n code payload k = (if k < n then Status code None else Status 200 (Some payload))"

text \<open>A response with status 200, the only one on which a call returns a payload.\<close>

definition is_ok :: "response \<Rightarrow> bool" where
  "is_ok r = (case r of Status code body \<Rightarrow> code = 200 | TransportError \<Rightarrow> False)"

section \<open>Storage upsert (\<open>upsert_to_db\<close>)\<close>

text \<open>
  A row of the table \<open>workflows\<close> (\<open>models.Workflow\<close>); \<open>None\<close> is SQL NULL. A canonical
  item has the fields that \<open>run_ingest\<close> puts into it, with their types there.
\<close>

datatype timestamp_val = TsDatetime datetime | TsStr string

record workflow_row =
  r_id :: "string option"
  r_workflow :: "string option"
  r_platform :: "string option"
  r_source_id :: "string option"
  r_source_url :: "string option"
  r_keywords :: "json option"
  r_country :: "string option"
  r_popularity_metrics :: "json option"
  r_popularity_score :: "real option"
  r_score_components :: "json option"
  r_last_updated :: "datetime option"
  r_evidence_count :: "int option"
  r_created_at :: "real option"

record canonical_item =
  c_id :: "string option"
  c_workflow :: "string option"
  c_platform :: "string option"
  c_source_id :: "string option"
  c_source_url :: "string option"
  c_keywords :: "json option"
  c_country :: "string option"
  c_popularity_metrics :: "json option"
  c_popularity_score :: "real option"
  c_score_components :: "json option"
  c_last_updated :: "timestamp_val option"
  c_evidence_count :: "int option"

text \<open>\<open>s.rstrip("Z")\<close>\<close>

definition rstrip_Z :: "string \<Rightarrow> string" where
  "rstrip_Z s = rev (dropWhile (\<lambda>c. c = CHR ''Z'') (rev s))"

definition json_or :: "json option \<Rightarrow> json \<Rightarrow> json" where
  "json_or a b = py_or (case a of None \<Rightarrow> JNull | Some v \<Rightarrow> v) b"

text \<open>
  The dict \<open>row\<close> of one loop round; \<open>new_uuid\<close> is the draw of \<open>uuid.uuid4()\<close> that is
  used when the item has no \<open>id\<close>. \<open>created_at\<close> is not given and takes the server
  default, the time \<open>db_now\<close> of the insertion.
\<close>

definition build_row :: "isoparser \<Rightarrow> string \<Rightarrow> real \<Rightarrow> canonical_item \<Rightarrow> workflow_row" where
  "build_row fromiso new_uuid db_now item =
     \<lparr>r_id = str_or (c_id item) (Some new_uuid),
      r_workflow = c_workflow item,
      r_platform = c_platform item,
      r_source_id = c_source_id item,
      r_source_url = c_source_url item,
      r_keywords = Some (json_or (c_keywords item) (JList [])),
      r_country = c_country item,
      r_popularity_metrics = Some (json_or (c_popularity_metrics item) (JDict [])),
      r_popularity_score = Some (case c_popularity_score item of None \<Rightarrow> 0 | Some x \<Rightarrow> x),
      r_score_components = Some (json_or (c_score_components item) (JDict [])),
      r_last_updated =
        (case c_last_updated item of
           None \<Rightarrow> None
         | Some (TsDatetime d) \<Rightarrow> Some d
         | Some (TsStr s) \<Rightarrow> fromiso (rstrip_Z s)),
      r_evidence_count = Some (case c_evidence_count item of None \<Rightarrow> 0 | Some n \<Rightarrow> n),
      r_created_at = Some db_now\<rparr>"

text \<open>
  \<open>set_=update_cols\<close>: the ten columns of \<open>update_cols\<close> take the values of the proposed
  row (\<open>stmt.excluded\<close>).
\<close>

definition do_update :: "workflow_row \<Rightarrow> workflow_row \<Rightarrow> workflow_row" where
  "do_update existing excluded =
     existing\<lparr>r_workflow := r_workflow excluded,
              r_platform := r_platform excluded,
              r_source_url := r_source_url excluded,
              r_keywords := r_keywords excluded,
              r_country := r_country excluded,
              r_popularity_metrics := r_popularity_metrics excluded,
              r_popularity_score := r_popularity_score excluded,
              r_score_components := r_score_components excluded,
              r_last_updated := r_last_updated excluded,
              r_evidence_count := r_evidence_count excluded\<rparr>"

text \<open>
  \<open>INSERT ... ON CONFLICT (source_id) DO UPDATE SET ...\<close> as PostgreSQL executes it on
  the table of \<open>models.Workflow\<close>: the NOT NULL columns of the proposed row are checked
  first; a row with the same \<open>source_id\<close> is updated in place; otherwise the row is
  inserted, unless its primary key \<open>id\<close> is taken.
\<close>

definition not_null_ok :: "workflow_row \<Rightarrow> bool" where
  "not_null_ok r = (r_id r \<noteq> None \<and> r_workflow r \<noteq> None \<and> r_platform r \<noteq> None
                     \<and> r_source_id r \<noteq> None)"

definition execute_upsert :: "workflow_row \<Rightarrow> workflow_row list \<Rightarrow> error + workflow_row list" where
  "execute_upsert row tbl =
     (if \<not> not_null_ok row then Inl IntegrityError
      else if r_source_id row \<in> set (map r_source_id tbl) then
        Inr (map (\<lambda>r. if r_source_id r = r_source_id row then do_update r row else r) tbl)
      else if r_id row \<in> set (map r_id tbl) then Inl IntegrityError
      else Inr (tbl @ [row]))"

text \<open>
  The loop of \<open>upsert_to_db\<close> inside one transaction: the first failure leaves the table
  as it was and the function returns \<open>False\<close>.
\<close>

fun upsert_loop ::
  "isoparser \<Rightarrow> (nat \<Rightarrow> string) \<Rightarrow> real \<Rightarrow> canonical_item list \<Rightarrow> nat \<Rightarrow> workflow_row list
     \<Rightarrow> error + workflow_row list" where
  "upsert_loop fromiso uuids db_now [] n tbl = Inr tbl"
| "upsert_loop fromiso uuids db_now (item # items) n tbl =
     (case execute_upsert (build_row fromiso (uuids n) db_now item) tbl of
        Inl e \<Rightarrow> Inl e
      | Inr tbl' \<Rightarrow>
          upsert_loop fromiso uuids db_now items
            (if str_or (c_id item) None = None then Suc n else n) tbl')"

definition upsert_to_db ::
  "isoparser \<Rightarrow> (nat \<Rightarrow> string) \<Rightarrow> real \<Rightarrow> canonical_item list \<Rightarrow> workflow_row list
     \<Rightarrow> bool \<times> workflow_row list" where
  "upsert_to_db fromiso uuids db_now canonical_items tbl =
     (case upsert_loop fromiso uuids db_now canonical_items 0 tbl of
        Inl e \<Rightarrow> (False, tbl)
      | Inr tbl' \<Rightarrow> (True, tbl'))"

section \<open>Example inputs\<close>

text \<open>
  \<open>datetime.fromisoformat\<close> on the three timestamps used in the examples below: the
  first of January 2024 and thirty days later, both at midnight UTC, and the first one
  without an offset.
\<close>

definition example_fromiso :: isoparser where
  "example_fromiso s =
     (if s = ''2024-01-01T00:00:00+00:00'' then Some (Aware 1704067200)
      else if s = ''2024-01-31T00:00:00+00:00'' then Some (Aware 1706659200)
      else if s = ''2024-01-01T00:00:00'' then Some (Naive 1704067200)
      else None)"

definition video_item :: "(string \<times> json) list \<Rightarrow> item" where
  "video_item m = \<lparr>platform = Some ''YouTube'', source_id = Some ''youtube:abc'',
     source_url = None, title = Some ''n8n tutorial'', keyword = None,
     metrics = Some (JDict m)\<rparr>"


text \<open>
  \<open>datetime.fromisoformat\<close> on two timestamps a century away from the first of January
  2024 (instant 1704067200).
\<close>

definition century_fromiso :: isoparser where
  "century_fromiso s =
     (if s = ''1900-01-01T00:00:00+00:00'' then Some (Aware (- 2208988800))
      else if s = ''2124-01-01T00:00:00+00:00'' then Some (Aware 4859740800)
      else None)"

text \<open>Draws of \<open>uuid.uuid4()\<close> for the examples, and items that differ in title and \<open>source_id\<close>.\<close>

definition example_uuids :: "nat \<Rightarrow> string" where
  "example_uuids n = ''uuid4-'' @ replicate n CHR ''f''"

definition other_uuids :: "nat \<Rightarrow> string" where
  "other_uuids n = ''uuid4-e'' @ replicate n CHR ''e''"

definition titled_item :: "string option \<Rightarrow> string option \<Rightarrow> item" where
  "titled_item t sid = \<lparr>platform = Some ''YouTube'', source_id = sid, source_url = None,
     title = t, keyword = None, metrics = Some (JDict [])\<rparr>"

definition four_items :: "item list" where
  "four_items =
     [titled_item (Some ''N8N  Tutorial!'') (Some ''youtube:a''),
      titled_item None None,
      titled_item (Some ''n8n tutorial'') (Some ''discourse:7''),
      titled_item (Some ''???'') None]"

text \<open>Two stored rows and a canonical item with the \<open>source_id\<close> of the first.\<close>

definition stored_row :: workflow_row where
  "stored_row =
     \<lparr>r_id = Some ''id-old'', r_workflow = Some ''n8n tutorial'', r_platform = Some ''YouTube'',
      r_source_id = Some ''youtube:abc'', r_source_url = None,
      r_keywords = Some (JList []), r_country = None,
      r_popularity_metrics = Some (JDict []), r_popularity_score = Some 0,
      r_score_components = Some (JDict []), r_last_updated = None,
      r_evidence_count = Some 1, r_created_at = Some 1704067200\<rparr>"

definition other_row :: workflow_row where
  "other_row = stored_row\<lparr>r_id := Some ''id-other'', r_source_id := Some ''discourse:42''\<rparr>"

definition new_item :: canonical_item where
  "new_item =
     \<lparr>c_id = Some ''id-new'', c_workflow = Some ''N8N Tutorial'', c_platform = Some ''mixed'',
      c_source_id = Some ''youtube:abc'', c_source_url = Some ''https://youtu.be/abc'',
      c_keywords = Some (JList []), c_country = Some ''US'',
      c_popularity_metrics = Some (JDict [(''views'', JInt 100)]),
      c_popularity_score = Some (1 / 2),
      c_score_components = Some (JDict []),
      c_last_updated = Some (TsStr ''2024-01-31T00:00:00+00:00''),
      c_evidence_count = Some 3\<rparr>"

section \<open>Properties of the scoring\<close>

subsection \<open>The range of the floats\<close>

lemma float_lim_ge: "2 ^ 970 \<le> float_lim"
proof -
  have "(2::real) ^ 1024 = 2 ^ 970 * 2 ^ 54" by (simp flip: power_add)
  moreover have "(2::real) \<le> 2 ^ 54" using power_increasing[of 1 54 "2::real"] by simp
  ultimately have "(2::real) * 2 ^ 970 \<le> 2 ^ 1024" by simp
  then show ?thesis by (simp add: float_lim_def)
qed

lemma float_lim_less: "float_lim < 2 ^ 1024"
  by (simp add: float_lim_def)

lemma float_lim_pos: "0 < float_lim"
proof -
  have "(0::real) < 2 ^ 970" by simp
  with float_lim_ge show ?thesis by linarith
qed

lemma small_in_float_range: "\<bar>n\<bar> \<le> 2 ^ 64 \<Longrightarrow> in_float_range n"
proof -
  assume "\<bar>n\<bar> \<le> 2 ^ 64"
  then have "\<bar>real_of_int n\<bar> \<le> 2 ^ 64"
    by (metis of_int_abs of_int_le_iff of_int_numeral of_int_power)
  moreover have "(2::real) ^ 64 < 2 ^ 970" by (rule power_strict_increasing) simp_all
  ultimately show ?thesis using float_lim_ge by (simp add: in_float_range_def)
qed

lemma float_tiny_pos: "0 < float_tiny"
  by (simp add: float_tiny_def)

lemma float_tiny_exp: "float_tiny = exp (- (1075 * ln 2))"
proof -
  have "exp (of_nat 1075 * ln (2::real)) = exp (ln 2) ^ 1075" by (rule exp_of_nat_mult)
  then have "exp (1075 * ln (2::real)) = 2 ^ 1075" by simp
  then show ?thesis by (simp add: float_tiny_def exp_minus inverse_eq_divide)
qed

lemma float_lim_exp: "exp (1024 * ln 2) = (2::real) ^ 1024"
proof -
  have "exp (of_nat 1024 * ln (2::real)) = exp (ln 2) ^ 1024" by (rule exp_of_nat_mult)
  then show ?thesis by simp
qed

lemma float_tiny_less_lim: "float_tiny < float_lim"
proof -
  have "float_tiny \<le> 1" by (simp add: float_tiny_def)
  moreover have "(1::real) < 2 ^ 970" by (rule one_less_power) simp_all
  ultimately show ?thesis using float_lim_ge by linarith
qed

lemma abs_trunc_le: "\<bar>real_of_int (trunc x)\<bar> \<le> \<bar>x\<bar>"
proof (cases "0 \<le> x")
  case True
  then have "0 \<le> \<lfloor>x\<rfloor>" by simp
  with True show ?thesis by (simp add: trunc_def)
next
  case False
  then have "\<lceil>x\<rceil> \<le> 0" by (simp add: ceiling_le_zero)
  moreover have "x \<le> real_of_int \<lceil>x\<rceil>" by (rule le_of_int_ceiling)
  ultimately show ?thesis using False by (simp add: trunc_def)
qed

subsection \<open>Well-formed items are scored without an exception\<close>

lemma numeric_as_float: "numeric v \<Longrightarrow> \<exists>x. as_float v = Inr x \<and> num_val v = Some x"
  by (cases v) auto

lemma numeric_num_val: "numeric v \<Longrightarrow> \<exists>x. num_val v = Some x"
  by (cases v) auto

lemma count_ok_py_or: "count_ok a \<Longrightarrow> numeric b \<Longrightarrow> numeric (py_or a b)"
  by (cases a) (auto simp: py_or_def count_ok_def)

lemma log1p_norm_total: "numeric v \<Longrightarrow> \<exists>r. log1p_norm v = Inr r"
proof -
  assume n: "numeric v"
  then obtain x where x: "as_float v = Inr x" "num_val v = Some x"
    using numeric_as_float by blast
  then show ?thesis by (simp add: log1p_norm_def py_max0_def)
qed

lemma int_val_num_val: "int_val v = Some n \<Longrightarrow> num_val v = Some (real_of_int n)"
  by (cases v) (auto split: if_splits)

lemma int_val_in_range: "numeric v \<Longrightarrow> int_val v = Some n \<Longrightarrow> in_float_range n"
  by (cases v) (auto split: if_splits intro: small_in_float_range)

lemma py_truediv_total:
  assumes "numeric x" "numeric views" "num_val views = Some v" "0 < v"
  shows "\<exists>r. py_truediv x views = Inr r"
proof (cases "int_val x")
  case None
  from assms(1) obtain fx where fx: "as_float x = Inr fx" using numeric_as_float by blast
  from assms(2,3) have fv: "as_float views = Inr v" using numeric_as_float by fastforce
  from None fx fv assms(4) show ?thesis by (simp add: py_truediv_def)
next
  case (Some ia)
  show ?thesis
  proof (cases "int_val views")
    case None
    from assms(1) obtain fx where fx: "as_float x = Inr fx" using numeric_as_float by blast
    from assms(2,3) have fv: "as_float views = Inr v" using numeric_as_float by fastforce
    from None Some fx fv assms(4) show ?thesis by (simp add: py_truediv_def)
  next
    case ib: (Some ib)
    from int_val_num_val[OF ib] assms(3,4) have pos: "0 < ib" by simp
    then have one: "1 \<le> real_of_int ib" by simp
    from assms(1) Some have "in_float_range ia" by (rule int_val_in_range)
    then have r: "\<bar>real_of_int ia\<bar> < float_lim" by (simp add: in_float_range_def)
    have "\<bar>real_of_int ia / real_of_int ib\<bar> = \<bar>real_of_int ia\<bar> / real_of_int ib"
      using pos by simp
    also have "\<dots> \<le> \<bar>real_of_int ia\<bar>"
      using one by (simp add: divide_le_eq mult_le_cancel_left1)
    finally have "\<bar>real_of_int ia / real_of_int ib\<bar> < float_lim" using r by linarith
    with Some ib pos show ?thesis by (simp add: py_truediv_def)
  qed
qed

lemma ratio_to_views_total:
  "numeric x \<Longrightarrow> numeric views \<Longrightarrow> \<exists>r. ratio_to_views x views = Inr r"
proof -
  assume x: "numeric x" and v: "numeric views"
  from v obtain r where r: "num_val views = Some r" using numeric_num_val by blast
  show ?thesis
  proof (cases "0 < r")
    case True
    from py_truediv_total[OF x v r True] r True show ?thesis by (simp add: ratio_to_views_def)
  next
    case False
    with r show ?thesis by (simp add: ratio_to_views_def)
  qed
qed

lemma iot_vals_total:
  "list_all series_ok vs \<Longrightarrow>
   iot_vals vs = Inr (map series_val vs) \<and> list_all numeric (map series_val vs)"
proof (induction vs)
  case Nil
  then show ?case by simp
next
  case (Cons v vs)
  then have ih: "iot_vals vs = Inr (map series_val vs)" "list_all numeric (map series_val vs)"
    by auto
  from Cons.prems have "series_ok v" by simp
  then show ?case using ih
    by (cases v rule: series_ok.cases) auto
qed

lemma pynum_add_total:
  assumes "numeric v" "acc \<noteq> PInf" "\<bar>acc_val acc\<bar> + abs_val v < float_lim"
  shows "\<exists>s. pynum_add acc v = Inr s \<and> s \<noteq> PInf \<and> \<bar>acc_val s\<bar> \<le> \<bar>acc_val acc\<bar> + abs_val v"
proof -
  from assms(1) obtain x where x: "num_val v = Some x" using numeric_num_val by blast
  then have av: "abs_val v = \<bar>x\<bar>" by (simp add: abs_val_def)
  have nonneg: "0 \<le> \<bar>acc_val acc\<bar>" "0 \<le> \<bar>x\<bar>" by simp_all
  show ?thesis
  proof (cases "int_val v")
    case (Some n)
    from int_val_num_val[OF Some] x have xn: "x = real_of_int n" by simp
    from assms(3) av xn nonneg have nr: "in_float_range n"
      by (simp add: in_float_range_def)
    show ?thesis
    proof (cases acc)
      case (PInt a)
      have "\<bar>real_of_int (a + n)\<bar> \<le> \<bar>real_of_int a\<bar> + \<bar>real_of_int n\<bar>" by simp
      with PInt Some av xn show ?thesis by (simp add: pynum_add_def)
    next
      case (PFloat a)
      have "\<bar>a + real_of_int n\<bar> \<le> \<bar>a\<bar> + \<bar>real_of_int n\<bar>" by simp
      with PFloat Some av xn nr assms(3) show ?thesis
        by (simp add: pynum_add_def float_sum_def)
    next
      case PInf
      with assms(2) show ?thesis by simp
    qed
  next
    case None
    with assms(1) obtain r where r: "v = JFloat r" by (cases v) auto
    with x have xr: "x = r" by simp
    show ?thesis
    proof (cases acc)
      case (PInt a)
      from assms(3) PInt av nonneg have ar: "in_float_range a"
        by (simp add: in_float_range_def)
      have "\<bar>real_of_int a + r\<bar> \<le> \<bar>real_of_int a\<bar> + \<bar>r\<bar>" by simp
      with PInt r av xr ar assms(3) show ?thesis
        by (simp add: pynum_add_def float_sum_def)
    next
      case (PFloat a)
      have "\<bar>a + r\<bar> \<le> \<bar>a\<bar> + \<bar>r\<bar>" by simp
      with PFloat r av xr assms(3) show ?thesis
        by (simp add: pynum_add_def float_sum_def)
    next
      case PInf
      with assms(2) show ?thesis by simp
    qed
  qed
qed

lemma abs_val_nonneg: "0 \<le> abs_val v"
  by (simp add: abs_val_def split: option.splits)

lemma py_sum_total:
  "list_all numeric vals \<Longrightarrow> acc \<noteq> PInf \<Longrightarrow>
   \<bar>acc_val acc\<bar> + sum_list (map abs_val vals) < float_lim \<Longrightarrow>
   \<exists>s. py_sum acc vals = Inr s \<and> s \<noteq> PInf \<and> \<bar>acc_val s\<bar> < float_lim"
proof (induction vals arbitrary: acc)
  case Nil
  then show ?case by simp
next
  case (Cons v vals)
  have "0 \<le> sum_list (map abs_val vals)" by (rule sum_list_nonneg) (auto simp: abs_val_nonneg)
  with Cons.prems have b: "\<bar>acc_val acc\<bar> + abs_val v < float_lim" by simp
  from Cons.prems have "numeric v" by simp
  from pynum_add_total[OF this Cons.prems(2) b] obtain s where
    s: "pynum_add acc v = Inr s" "s \<noteq> PInf" "\<bar>acc_val s\<bar> \<le> \<bar>acc_val acc\<bar> + abs_val v"
    by blast
  from s(3) Cons.prems(3) have "\<bar>acc_val s\<bar> + sum_list (map abs_val vals) < float_lim" by simp
  moreover from Cons.prems have "list_all numeric vals" by simp
  ultimately obtain s' where "py_sum s vals = Inr s'" "s' \<noteq> PInf" "\<bar>acc_val s'\<bar> < float_lim"
    using Cons.IH[of s] s(2) by blast
  with s(1) show ?case by simp
qed

lemma int_of_mean_total:
  assumes "s \<noteq> PInf" "\<bar>acc_val s\<bar> < float_lim" "1 \<le> n"
  shows "\<exists>k. int_of_mean s n = Inr k \<and> in_float_range k"
proof -
  from assms(3) have n1: "1 \<le> real n" by simp
  have q: "\<bar>x / real n\<bar> \<le> \<bar>x\<bar>" for x :: real
  proof -
    have "\<bar>x / real n\<bar> = \<bar>x\<bar> / real n" using n1 by simp
    also have "\<dots> \<le> \<bar>x\<bar>" using n1 by (simp add: divide_le_eq mult_le_cancel_left1)
    finally show ?thesis .
  qed
  show ?thesis
  proof (cases s)
    case (PInt a)
    with assms(2) q[of "real_of_int a"] have lt: "\<bar>real_of_int a / real n\<bar> < float_lim" by simp
    with abs_trunc_le[of "real_of_int a / real n"]
    have "in_float_range (trunc (real_of_int a / real n))" by (simp add: in_float_range_def)
    with PInt lt show ?thesis by (simp add: int_of_mean_def)
  next
    case (PFloat a)
    with assms(2) q[of a] have lt: "\<bar>a / real n\<bar> < float_lim" by simp
    with abs_trunc_le[of "a / real n"]
    have "in_float_range (trunc (a / real n))" by (simp add: in_float_range_def)
    with PFloat show ?thesis by (simp add: int_of_mean_def)
  next
    case PInf
    with assms(1) show ?thesis by simp
  qed
qed

lemma trends_views_total:
  assumes "case map_of m ''interest_over_time'' of
            None \<Rightarrow> True
          | Some (JDict iot) \<Rightarrow>
              list_all series_ok (map snd iot)
              \<and> sum_list (map (\<lambda>kv. abs_val (series_val (snd kv))) iot) < float_lim
          | Some _ \<Rightarrow> False"
  shows "\<exists>k. trends_views m = Inr (JInt k) \<and> in_float_range k"
proof (cases "map_of m ''interest_over_time''")
  case None
  have "int_of_mean (PInt 0) (Suc 0) = Inr 0"
    using float_lim_pos by (simp add: int_of_mean_def trunc_def)
  moreover have "in_float_range 0" using float_lim_pos by (simp add: in_float_range_def)
  ultimately show ?thesis using None by (simp add: trends_views_def)
next
  case (Some j)
  with assms obtain iot where j: "j = JDict iot" and ok: "list_all series_ok (map snd iot)"
    and bound: "sum_list (map (\<lambda>kv. abs_val (series_val (snd kv))) iot) < float_lim"
    by (cases j) auto
  let ?vals = "map series_val (map snd iot)"
  from iot_vals_total[OF ok] have iv: "iot_vals (map snd iot) = Inr ?vals"
    and nv: "list_all numeric ?vals" by simp_all
  from bound have "\<bar>acc_val (PInt 0)\<bar> + sum_list (map abs_val ?vals) < float_lim"
    by (simp add: comp_def)
  from py_sum_total[OF nv _ this] obtain s where
    s: "py_sum (PInt 0) ?vals = Inr s" "s \<noteq> PInf" "\<bar>acc_val s\<bar> < float_lim" by auto
  from int_of_mean_total[OF s(2,3), of "max 1 (length ?vals)"] obtain k where
    "int_of_mean s (max 1 (length ?vals)) = Inr k" "in_float_range k" by auto
  with Some j iv s(1) show ?thesis by (simp add: trends_views_def)
qed

lemma views_total:
  assumes "wf_metrics p m"
  shows "\<exists>vv. (if p = Some ''GoogleTrends'' then trends_views m
            else Inr (py_or (dget m ''views'') (JInt 0))) = Inr vv \<and> numeric vv"
proof (cases "p = Some ''GoogleTrends''")
  case True
  with assms trends_views_total[of m] obtain k
    where "trends_views m = Inr (JInt k)" "in_float_range k"
    by (auto simp: wf_metrics_def)
  with True show ?thesis by simp
next
  case False
  have "numeric (JInt 0)" using float_lim_pos by (simp add: in_float_range_def)
  with False assms have "numeric (py_or (dget m ''views'') (JInt 0))"
    by (auto simp: wf_metrics_def intro: count_ok_py_or)
  with False show ?thesis by auto
qed

lemma wf_item_metrics:
  "wf_item it \<Longrightarrow> \<exists>m. item_metrics it = Inr m \<and> wf_metrics (platform it) m"
  by (auto simp: wf_item_def item_metrics_def split: option.splits json.splits)

lemma compute_item_scores_total:
  assumes "wf_item it"
  shows "\<exists>sc. compute_item_scores fromiso now it = Inr sc"
proof -
  from wf_item_metrics[OF assms] obtain m
    where m: "item_metrics it = Inr m" and wf: "wf_metrics (platform it) m" by blast
  from views_total[OF wf] obtain vv where
    vv: "(if platform it = Some ''GoogleTrends'' then trends_views m
            else Inr (py_or (dget m ''views'') (JInt 0))) = Inr vv" and nvv: "numeric vv"
    by blast
  from log1p_norm_total[OF nvv] obtain vr where vr: "log1p_norm vv = Inr vr" by blast
  have zero: "numeric (JInt 0)" using float_lim_pos by (simp add: in_float_range_def)
  from wf zero have "numeric (py_or (dget m ''likes'') (JInt 0))"
    by (auto simp: wf_metrics_def intro: count_ok_py_or)
  then obtain l where l: "ratio_to_views (py_or (dget m ''likes'') (JInt 0)) vv = Inr l"
    using ratio_to_views_total nvv by blast
  from wf zero have "numeric (py_or (dget m ''comments'') (py_or (dget m ''replies'') (JInt 0)))"
    by (auto simp: wf_metrics_def intro!: count_ok_py_or)
  then obtain c where c: "ratio_to_views (py_or (dget m ''comments'')
        (py_or (dget m ''replies'') (JInt 0))) vv = Inr c"
    using ratio_to_views_total nvv by blast
  from wf have "numeric (py_or (dget m ''growth_pct_30d'') (JFloat 0))"
    by (auto simp: wf_metrics_def intro: count_ok_py_or)
  then obtain g where g: "as_float (py_or (dget m ''growth_pct_30d'') (JFloat 0)) = Inr g"
    using numeric_as_float by blast
  show ?thesis
    unfolding compute_item_scores_def using m vv vr l c g
    by (simp add: Let_def del: if_split cong: if_cong)
qed

lemma compute_item_scores_D:
  "compute_item_scores fromiso now it = Inr sc \<Longrightarrow>
     \<exists>m. item_metrics it = Inr m \<and> D sc = item_decay fromiso now m"
  unfolding compute_item_scores_def
  by (auto simp: Let_def split: sum.splits simp del: if_split cong: if_cong)









subsection \<open>Recency decay\<close>





lemma py_exp_half: "py_exp (- ln 2) = Inr (1 / 2)"
proof -
  have e: "exp (- ln (2::real)) = 1 / 2" by (simp add: exp_minus inverse_eq_divide)
  have "(1::real) < 2 ^ 970" by (rule one_less_power) simp_all
  with float_lim_ge have a: "\<not> float_lim \<le> 1 / 2" by linarith
  have "(2::real) ^ 1 < 2 ^ 1075" by (rule power_strict_increasing) simp_all
  then have b: "\<not> (1 / 2 \<le> float_tiny)" by (simp add: float_tiny_def field_simps)
  from e a b show ?thesis by (simp add: py_exp_def)
qed


lemma decay_multiplier_aware:
  assumes "fromiso (replace_Z s) = Some (Aware t)" "h \<noteq> 0"
  shows "decay_multiplier fromiso now (JStr s) h
           = py_exp (- ln 2 * ((now - t) / 86400) / real_of_int h)"
  using assms by (simp add: decay_multiplier_def)






lemma replace_Z_examples [simp]:
  "replace_Z ''2024-01-01T00:00:00Z'' = ''2024-01-01T00:00:00+00:00''"
  "replace_Z ''2024-01-31T00:00:00Z'' = ''2024-01-31T00:00:00+00:00''"
  "replace_Z ''1900-01-01T00:00:00Z'' = ''1900-01-01T00:00:00+00:00''"
  "replace_Z ''2124-01-01T00:00:00Z'' = ''2124-01-01T00:00:00+00:00''"
  by (simp_all add: replace_Z_def)


lemma in_range_examples:
  "in_float_range 0" "in_float_range 3" "in_float_range 10" "in_float_range 50"
  "in_float_range 100" "in_float_range 1000"
  by (rule small_in_float_range, simp)+




text \<open>
  The two ends of the range, seen from the first of January 2024: a timestamp of 1900
  gives the multiplier 0.0, and on a timestamp of 2124 \<open>math.exp\<close> raises, so that the
  item gets \<open>D = 1.0\<close>.
\<close>

lemma decay_century_examples:
  "decay_multiplier century_fromiso 1704067200 (JStr ''1900-01-01T00:00:00Z'') 30 = Inr 0
   \<and> decay_multiplier century_fromiso 1704067200 (JStr ''2124-01-01T00:00:00Z'') 30
       = Inl OverflowError
   \<and> item_decay century_fromiso 1704067200 [(''published_at'', JStr ''2124-01-01T00:00:00Z'')]
       = 1"
proof -
  have l2: "0 < ln (2::real)" by simp
  let ?old = "- ln 2 * ((1704067200 - (- 2208988800)) / 86400) / real_of_int 30"
  let ?far = "- ln 2 * ((1704067200 - 4859740800) / 86400) / real_of_int 30"
  have "?old = - (ln 2 * (45290 / 30))" by simp
  moreover have "ln 2 * (1075::real) \<le> ln 2 * (45290 / 30)"
    using l2 by simp
  ultimately have "?old \<le> - (1075 * ln 2)" by (simp add: mult.commute)
  then have u: "exp ?old \<le> float_tiny" by (simp only: float_tiny_exp exp_le_cancel_iff)
  with float_tiny_less_lim have nu: "\<not> float_lim \<le> exp ?old" by linarith
  from u nu have o: "py_exp ?old = Inr 0" by (simp only: py_exp_def if_False if_True)
  have "?far = ln 2 * (36524 / 30)" by simp
  moreover have "ln 2 * (1024::real) \<le> ln 2 * (36524 / 30)"
    using l2 by simp
  ultimately have "1024 * ln 2 \<le> ?far" by (simp add: mult.commute)
  then have "exp (1024 * ln 2) \<le> exp ?far" by (simp only: exp_le_cancel_iff)
  with float_lim_exp float_lim_less have "float_lim \<le> exp ?far" by linarith
  then have f: "py_exp ?far = Inl OverflowError" by (simp only: py_exp_def if_True)
  have d1: "decay_multiplier century_fromiso 1704067200 (JStr ''1900-01-01T00:00:00Z'') 30 = Inr 0"
    using o by (simp add: decay_multiplier_def century_fromiso_def)
  have d2: "decay_multiplier century_fromiso 1704067200 (JStr ''2124-01-01T00:00:00Z'') 30
       = Inl OverflowError"
    using f by (simp add: decay_multiplier_def century_fromiso_def)
  have d3: "item_decay century_fromiso 1704067200
       [(''published_at'', JStr ''2124-01-01T00:00:00Z'')] = 1"
    using d2 by (simp add: item_decay_def recency_timestamp_def dget_def py_or_def)
  from d1 d2 d3 show ?thesis by simp
qed

text \<open>
  Claim C4. A timestamp that parses to an aware instant exactly \<open>half_life_days\<close> days
  before the current time gives the multiplier one half, from \<open>decay_multiplier\<close> for
  any half-life other than 0 and as the component \<open>D\<close> of a well-formed item for the
  default of 30 days; a well-formed item with neither \<open>published_at\<close> nor
  \<open>first_post_ts\<close> gets \<open>D = 1\<close>.
\<close>

theorem decay_at_half_life:
  "(fromiso (replace_Z s) = Some (Aware t) \<and> h \<noteq> 0 \<and> now = t + real_of_int h * 86400 \<longrightarrow>
      decay_multiplier fromiso now (JStr s) h = Inr (1 / 2))
   \<and> (wf_item it \<and> item_metrics it = Inr m \<and> dget m ''published_at'' = JStr s \<and> s \<noteq> []
        \<and> fromiso (replace_Z s) = Some (Aware t) \<and> now = t + 30 * 86400 \<longrightarrow>
        (\<exists>sc. compute_item_scores fromiso now it = Inr sc \<and> D sc = 1 / 2))
   \<and> (wf_item it' \<and> item_metrics it' = Inr m' \<and> \<not> truthy (dget m' ''published_at'')
        \<and> \<not> truthy (dget m' ''first_post_ts'') \<longrightarrow>
        (\<exists>sc. compute_item_scores fromiso now it' = Inr sc \<and> D sc = 1))"
proof (intro conjI impI)
  assume a: "fromiso (replace_Z s) = Some (Aware t) \<and> h \<noteq> 0 \<and> now = t + real_of_int h * 86400"
  then have "- ln 2 * ((now - t) / 86400) / real_of_int h = - ln 2" by simp
  then have "py_exp (- ln 2 * ((now - t) / 86400) / real_of_int h) = Inr (1 / 2)"
    by (simp only: py_exp_half)
  moreover from a have "decay_multiplier fromiso now (JStr s) h
           = py_exp (- ln 2 * ((now - t) / 86400) / real_of_int h)"
    by (intro decay_multiplier_aware) auto
  ultimately show "decay_multiplier fromiso now (JStr s) h = Inr (1 / 2)"
    by (simp only:)
next
  assume a: "wf_item it \<and> item_metrics it = Inr m \<and> dget m ''published_at'' = JStr s \<and> s \<noteq> []
        \<and> fromiso (replace_Z s) = Some (Aware t) \<and> now = t + 30 * 86400"
  then obtain sc where sc: "compute_item_scores fromiso now it = Inr sc"
    using compute_item_scores_total by blast
  from a have "- ln 2 * ((now - t) / 86400) / real_of_int 30 = - ln 2" by simp
  then have "py_exp (- ln 2 * ((now - t) / 86400) / real_of_int 30) = Inr (1 / 2)"
    by (simp only: py_exp_half)
  moreover from a have "decay_multiplier fromiso now (JStr s) 30
           = py_exp (- ln 2 * ((now - t) / 86400) / real_of_int 30)"
    by (intro decay_multiplier_aware) auto
  ultimately have "decay_multiplier fromiso now (JStr s) 30 = Inr (1 / 2)"
    by (simp only:)
  with a have "item_decay fromiso now m = 1 / 2"
    by (simp add: item_decay_def recency_timestamp_def py_or_def)
  with compute_item_scores_D[OF sc] a sc
  show "\<exists>sc. compute_item_scores fromiso now it = Inr sc \<and> D sc = 1 / 2" by auto
next
  assume a: "wf_item it' \<and> item_metrics it' = Inr m' \<and> \<not> truthy (dget m' ''published_at'')
        \<and> \<not> truthy (dget m' ''first_post_ts'')"
  then obtain sc where sc: "compute_item_scores fromiso now it' = Inr sc"
    using compute_item_scores_total by blast
  from a have "item_decay fromiso now m' = 1"
    by (simp add: item_decay_def recency_timestamp_def py_or_def)
  with compute_item_scores_D[OF sc] a sc
  show "\<exists>sc. compute_item_scores fromiso now it' = Inr sc \<and> D sc = 1" by auto
qed

theorem decay_at_half_life_witness:
  "decay_multiplier example_fromiso 1706659200 (JStr ''2024-01-01T00:00:00Z'') 30 = Inr (1 / 2)
   \<and> (\<exists>sc. compute_item_scores example_fromiso 1706659200
              (video_item [(''published_at'', JStr ''2024-01-01T00:00:00Z'')]) = Inr sc
          \<and> D sc = 1 / 2)
   \<and> (\<exists>sc. compute_item_scores example_fromiso 1706659200
              (video_item [(''views'', JInt 1000)]) = Inr sc
          \<and> D sc = 1)"
proof -
  have h1: "example_fromiso (replace_Z ''2024-01-01T00:00:00Z'') = Some (Aware 1704067200)
            \<and> (30::int) \<noteq> 0 \<and> (1706659200::real) = 1704067200 + real_of_int 30 * 86400"
    by (simp add: example_fromiso_def)
  have h2: "wf_item (video_item [(''published_at'', JStr ''2024-01-01T00:00:00Z'')])
     \<and> item_metrics (video_item [(''published_at'', JStr ''2024-01-01T00:00:00Z'')])
         = Inr [(''published_at'', JStr ''2024-01-01T00:00:00Z'')]
     \<and> dget [(''published_at'', JStr ''2024-01-01T00:00:00Z'')] ''published_at''
         = JStr ''2024-01-01T00:00:00Z''
     \<and> ''2024-01-01T00:00:00Z'' \<noteq> []
     \<and> example_fromiso (replace_Z ''2024-01-01T00:00:00Z'') = Some (Aware 1704067200)
     \<and> (1706659200::real) = 1704067200 + 30 * 86400"
    using in_range_examples
    by (simp add: wf_item_def wf_metrics_def video_item_def dget_def count_ok_def
        item_metrics_def example_fromiso_def)
  have h3: "wf_item (video_item [(''views'', JInt 1000)])
     \<and> item_metrics (video_item [(''views'', JInt 1000)]) = Inr [(''views'', JInt 1000)]
     \<and> \<not> truthy (dget [(''views'', JInt 1000)] ''published_at'')
     \<and> \<not> truthy (dget [(''views'', JInt 1000)] ''first_post_ts'')"
    using in_range_examples
    by (simp add: wf_item_def wf_metrics_def video_item_def dget_def count_ok_def
        item_metrics_def)
  from decay_at_half_life[of example_fromiso "''2024-01-01T00:00:00Z''" 1704067200 30 1706659200
      "video_item [(''published_at'', JStr ''2024-01-01T00:00:00Z'')]"
      "[(''published_at'', JStr ''2024-01-01T00:00:00Z'')]"
      "video_item [(''views'', JInt 1000)]" "[(''views'', JInt 1000)]"] h1 h2 h3
  show ?thesis by blast
qed

subsection \<open>Aggregation of a group\<close>




section \<open>Properties of the grouping\<close>

subsection \<open>The loop and the keys\<close>

lemma group_loop_pairs:
  "group_loop u its n g = group_pairs (zip (item_keys u n its) its) g"
  by (induction its arbitrary: n g)
     (auto simp: base_key_def Let_def split: option.splits)

lemma length_item_keys [simp]: "length (item_keys u n its) = length its"
  by (induction its arbitrary: n) (auto split: option.splits)

lemma item_keys_nth_base:
  "i < length its \<Longrightarrow> base_key (its ! i) = Some k \<Longrightarrow> item_keys u n its ! i = k"
proof (induction its arbitrary: n i)
  case Nil
  then show ?case by simp
next
  case (Cons it its)
  show ?case
  proof (cases i)
    case 0
    with Cons.prems show ?thesis by simp
  next
    case (Suc j)
    with Cons.prems have "item_keys u m its ! j = k" for m
      by (intro Cons.IH) auto
    with Suc show ?thesis by (simp split: option.splits)
  qed
qed

lemma keys_append_to: "fst ` set (append_to g k x) = insert k (fst ` set g)"
  by (induction g k x rule: append_to.induct) auto

lemma distinct_append_to:
  "distinct (map fst g) \<Longrightarrow> distinct (map fst (append_to g k x))"
proof (induction g k x rule: append_to.induct)
  case (1 k x)
  then show ?case by simp
next
  case (2 k' xs g k x)
  then show ?case
    using keys_append_to[of g k x] by (auto simp: image_iff)
qed

lemma map_of_append_to:
  "map_of (append_to g k x) =
     (map_of g)(k \<mapsto> (case map_of g k of None \<Rightarrow> [x] | Some xs \<Rightarrow> xs @ [x]))"
  by (induction g k x rule: append_to.induct) (auto simp: fun_eq_iff)

lemma mset_append_to:
  "mset (concat (map snd (append_to g k x))) = mset (concat (map snd g)) + {#x#}"
  by (induction g k x rule: append_to.induct) auto

lemma no_empty_append_to:
  "[] \<notin> snd ` set g \<Longrightarrow> [] \<notin> snd ` set (append_to g k x)"
  by (induction g k x rule: append_to.induct) auto

lemma distinct_group_pairs:
  "distinct (map fst g) \<Longrightarrow> distinct (map fst (group_pairs kxs g))"
  by (induction kxs g rule: group_pairs.induct) (auto simp: distinct_append_to)

lemma mset_group_pairs:
  "mset (concat (map snd (group_pairs kxs g))) = mset (concat (map snd g)) + mset (map snd kxs)"
  by (induction kxs g rule: group_pairs.induct) (auto simp: mset_append_to)

lemma no_empty_group_pairs:
  "[] \<notin> snd ` set g \<Longrightarrow> [] \<notin> snd ` set (group_pairs kxs g)"
  by (induction kxs g rule: group_pairs.induct) (auto simp: no_empty_append_to)

lemma map_of_group_pairs:
  "map_of (group_pairs kxs g) k =
     (let new = map snd (filter (\<lambda>p. fst p = k) kxs) in
      case map_of g k of
        None \<Rightarrow> if new = [] then None else Some new
      | Some xs \<Rightarrow> Some (xs @ new))"
proof (induction kxs g rule: group_pairs.induct)
  case (1 g)
  then show ?case by (simp split: option.splits)
next
  case (2 k' x kxs g)
  then show ?case
    by (auto simp: map_of_append_to Let_def split: option.splits)
qed

lemma subseq_filter_zip: "subseq (map snd (filter P (zip ks xs))) xs"
proof (induction xs arbitrary: ks)
  case Nil
  then show ?case by simp
next
  case (Cons x xs)
  show ?case
  proof (cases ks)
    case Nil
    then show ?thesis by simp
  next
    case (Cons k ks')
    with Cons.IH[of ks'] show ?thesis by auto
  qed
qed

lemma filter_zip_single:
  "length ks = length xs \<Longrightarrow> i < length xs \<Longrightarrow> ks ! i = s \<Longrightarrow>
   (\<forall>j<length xs. j \<noteq> i \<longrightarrow> ks ! j \<noteq> s) \<Longrightarrow>
   map snd (filter (\<lambda>p. fst p = s) (zip ks xs)) = [xs ! i]"
proof (induction xs arbitrary: ks i)
  case Nil
  then show ?case by simp
next
  case (Cons x xs)
  then obtain k ks' where ks: "ks = k # ks'" by (cases ks) auto
  show ?case
  proof (cases i)
    case 0
    have "\<forall>p\<in>set (zip ks' xs). fst p \<noteq> s"
    proof
      fix p assume "p \<in> set (zip ks' xs)"
      then obtain j where j: "j < length xs" "ks' ! j = fst p"
        by (auto simp: in_set_zip)
      with Cons.prems(4)[rule_format, of "Suc j"] 0 ks show "fst p \<noteq> s" by auto
    qed
    then have "filter (\<lambda>p. fst p = s) (zip ks' xs) = []" by (auto simp: filter_empty_conv)
    with 0 ks Cons.prems show ?thesis by simp
  next
    case (Suc j)
    from Cons.prems(4)[rule_format, of 0] Suc ks have k: "k \<noteq> s" by auto
    have "map snd (filter (\<lambda>p. fst p = s) (zip ks' xs)) = [xs ! j]"
    proof (rule Cons.IH)
      show "length ks' = length xs" using Cons.prems ks by simp
      show "j < length xs" using Cons.prems Suc by simp
      show "ks' ! j = s" using Cons.prems Suc ks by simp
      show "\<forall>l<length xs. l \<noteq> j \<longrightarrow> ks' ! l \<noteq> s"
        using Cons.prems(4)[rule_format, of "Suc l" for l] Suc ks by auto
    qed
    with k ks Suc show ?thesis by simp
  qed
qed

lemma nth_in_filter_zip:
  "length ks = length xs \<Longrightarrow> i < length xs \<Longrightarrow> ks ! i = s \<Longrightarrow>
   xs ! i \<in> set (map snd (filter (\<lambda>p. fst p = s) (zip ks xs)))"
  by (force simp: in_set_zip image_iff)

lemma map_of_group_evidence:
  "map_of (group_evidence u items) k =
     (if members (item_keys u 0 items) items k = [] then None
      else Some (members (item_keys u 0 items) items k))"
  by (simp add: group_evidence_def group_loop_pairs map_of_group_pairs members_def)

lemma distinct_group_evidence: "distinct (map fst (group_evidence u items))"
  by (simp add: group_evidence_def group_loop_pairs distinct_group_pairs)

lemma in_group_evidence:
  "(k, g) \<in> set (group_evidence u items) \<longleftrightarrow>
     g \<noteq> [] \<and> g = members (item_keys u 0 items) items k"
  using map_of_eq_Some_iff[OF distinct_group_evidence, of u items k g]
  by (auto simp: map_of_group_evidence split: if_splits)

text \<open>
  Claim C9. \<open>group_evidence\<close> partitions its input: the keys of the groups are
  pairwise different, the groups together hold the input items with their
  multiplicities (so the sizes add up to the number of items), no group is empty, every
  group lists exactly the items with its key in the order of the input, and every
  item lies in the group of its key.
\<close>

theorem group_evidence_partition:
  "distinct (map fst (group_evidence u items))
   \<and> mset (concat (map snd (group_evidence u items))) = mset items
   \<and> sum_list (map (\<lambda>kg. length (snd kg)) (group_evidence u items)) = length items
   \<and> (\<forall>kg\<in>set (group_evidence u items).
         snd kg \<noteq> [] \<and> subseq (snd kg) items
         \<and> snd kg = members (item_keys u 0 items) items (fst kg))
   \<and> (\<forall>i<length items.
         \<exists>g. (item_keys u 0 items ! i, g) \<in> set (group_evidence u items) \<and> items ! i \<in> set g)"
proof (intro conjI)
  show "distinct (map fst (group_evidence u items))" by (rule distinct_group_evidence)
  show m: "mset (concat (map snd (group_evidence u items))) = mset items"
    by (simp add: group_evidence_def group_loop_pairs mset_group_pairs)
  have "sum_list (map (\<lambda>kg. length (snd kg)) (group_evidence u items))
          = length (concat (map snd (group_evidence u items)))"
    by (simp add: length_concat comp_def)
  also have "\<dots> = length items" using m by (metis size_mset)
  finally show "sum_list (map (\<lambda>kg. length (snd kg)) (group_evidence u items)) = length items" .
  show "\<forall>kg\<in>set (group_evidence u items).
         snd kg \<noteq> [] \<and> subseq (snd kg) items
         \<and> snd kg = members (item_keys u 0 items) items (fst kg)"
  proof
    fix kg assume "kg \<in> set (group_evidence u items)"
    then have "(fst kg, snd kg) \<in> set (group_evidence u items)" by simp
    then have "snd kg \<noteq> [] \<and> snd kg = members (item_keys u 0 items) items (fst kg)"
      using in_group_evidence[of "fst kg" "snd kg" u items] by blast
    then show "snd kg \<noteq> [] \<and> subseq (snd kg) items
         \<and> snd kg = members (item_keys u 0 items) items (fst kg)"
      using subseq_filter_zip[of "\<lambda>p. fst p = fst kg" "item_keys u 0 items" items]
      by (auto simp: members_def)
  qed
  show "\<forall>i<length items.
         \<exists>g. (item_keys u 0 items ! i, g) \<in> set (group_evidence u items) \<and> items ! i \<in> set g"
  proof (intro allI impI)
    fix i assume i: "i < length items"
    let ?k = "item_keys u 0 items ! i"
    have "items ! i \<in> set (members (item_keys u 0 items) items ?k)"
      unfolding members_def using i by (intro nth_in_filter_zip) auto
    then show "\<exists>g. (?k, g) \<in> set (group_evidence u items) \<and> items ! i \<in> set g"
      by (auto simp: in_group_evidence)
  qed
qed

theorem group_evidence_partition_witness:
  "(''n8n tutorial'',
      [titled_item (Some ''N8N  Tutorial!'') (Some ''youtube:a''),
       titled_item (Some ''n8n tutorial'') (Some ''discourse:7'')])
     \<in> set (group_evidence example_uuids four_items)
   \<and> subseq [titled_item (Some ''N8N  Tutorial!'') (Some ''youtube:a''),
              titled_item (Some ''n8n tutorial'') (Some ''discourse:7'')] four_items
   \<and> mset (concat (map snd (group_evidence example_uuids four_items))) = mset four_items
   \<and> sum_list (map (\<lambda>kg. length (snd kg)) (group_evidence example_uuids four_items)) = 4"
proof -
  have m: "(''n8n tutorial'',
      [titled_item (Some ''N8N  Tutorial!'') (Some ''youtube:a''),
       titled_item (Some ''n8n tutorial'') (Some ''discourse:7'')])
     \<in> set (group_evidence example_uuids four_items)"
    by code_simp
  have l: "length four_items = 4" by (simp add: four_items_def)
  from group_evidence_partition[of example_uuids four_items] m l
  show ?thesis by fastforce
qed

subsection \<open>The groups do not depend on the draws of identifiers\<close>

lemma count_take_less:
  "i < length xs \<Longrightarrow> P (xs ! i) \<Longrightarrow> length (filter P (take i xs)) < length (filter P xs)"
proof -
  assume a: "i < length xs" "P (xs ! i)"
  then have "xs = take i xs @ xs ! i # drop (Suc i) xs" by (simp add: id_take_nth_drop)
  then have "filter P xs = filter P (take i xs) @ filter P (xs ! i # drop (Suc i) xs)"
    by (metis filter_append)
  with a show ?thesis by simp
qed

lemma item_keys_nth:
  "i < length its \<Longrightarrow>
   item_keys u n its ! i =
     (case base_key (its ! i) of
        Some k \<Rightarrow> k
      | None \<Rightarrow> u (n + length (filter (\<lambda>it. base_key it = None) (take i its))))"
proof (induction its arbitrary: n i)
  case Nil
  then show ?case by simp
next
  case (Cons it its)
  show ?case
  proof (cases i)
    case 0
    then show ?thesis by (simp split: option.splits)
  next
    case (Suc j)
    with Cons.prems have j: "j < length its" by simp
    show ?thesis
    proof (cases "base_key it")
      case None
      with Suc Cons.IH[OF j, of "Suc n"] show ?thesis by (simp split: option.splits)
    next
      case (Some k)
      with Suc Cons.IH[OF j, of n] show ?thesis by (simp split: option.splits)
    qed
  qed
qed

lemma append_to_rename:
  "inj_on f (insert k (fst ` set g)) \<Longrightarrow>
   append_to (map (apfst f) g) (f k) x = map (apfst f) (append_to g k x)"
proof (induction g k x rule: append_to.induct)
  case (1 k x)
  then show ?case by simp
next
  case (2 k' xs g k x)
  from "2.prems" have eq: "f k' = f k \<longleftrightarrow> k' = k" by (auto simp: inj_on_def)
  from "2.prems" have "inj_on f (insert k (fst ` set g))" by (auto simp: inj_on_def)
  with 2 eq show ?case by auto
qed

lemma group_pairs_rename:
  "inj_on f (fst ` set kxs \<union> fst ` set g) \<Longrightarrow>
   group_pairs (map (apfst f) kxs) (map (apfst f) g) = map (apfst f) (group_pairs kxs g)"
proof (induction kxs g rule: group_pairs.induct)
  case (1 g)
  then show ?case by simp
next
  case (2 k x kxs g)
  have s1: "insert k (fst ` set g) \<subseteq> fst ` set ((k, x) # kxs) \<union> fst ` set g"
    by auto
  have s2: "fst ` set kxs \<union> fst ` set (append_to g k x)
              \<subseteq> fst ` set ((k, x) # kxs) \<union> fst ` set g"
    by (auto simp: keys_append_to)
  from "2.prems" s1 have i1: "inj_on f (insert k (fst ` set g))"
    by (rule inj_on_subset)
  from "2.prems" s2 have i2: "inj_on f (fst ` set kxs \<union> fst ` set (append_to g k x))"
    by (rule inj_on_subset)
  have "group_pairs (map (apfst f) ((k, x) # kxs)) (map (apfst f) g)
          = group_pairs (map (apfst f) kxs) (append_to (map (apfst f) g) (f k) x)"
    by simp
  also have "\<dots> = group_pairs (map (apfst f) kxs) (map (apfst f) (append_to g k x))"
    by (simp only: append_to_rename[OF i1])
  also have "\<dots> = map (apfst f) (group_pairs kxs (append_to g k x))"
    by (rule "2.IH"[OF i2])
  finally show ?case by simp
qed

lemma zip_map_keys: "zip (map f ks) xs = map (apfst f) (zip ks xs)"
proof (induction ks arbitrary: xs)
  case Nil
  then show ?case by simp
next
  case (Cons k ks)
  then show ?case by (cases xs) simp_all
qed

lemma map_snd_apfst: "map snd (map (apfst f) g) = map snd g"
  by (induction g) simp_all

lemma grouping_rename:
  assumes "inj_on f (set ks)"
  shows "map snd (group_pairs (zip (map f ks) xs) []) = map snd (group_pairs (zip ks xs) [])"
proof -
  have "fst ` set (zip ks xs) \<subseteq> set ks"
  proof
    fix k assume "k \<in> fst ` set (zip ks xs)"
    then obtain b where "(k, b) \<in> set (zip ks xs)" by auto
    then show "k \<in> set ks" by (rule set_zip_leftD)
  qed
  with assms have "inj_on f (fst ` set (zip ks xs))"
    by (rule inj_on_subset)
  then have inj: "inj_on f (fst ` set (zip ks xs) \<union> fst ` set ([] :: ('a \<times> 'c list) list))"
    by simp
  have "group_pairs (zip (map f ks) xs) []
          = group_pairs (map (apfst f) (zip ks xs)) (map (apfst f) [])"
    by (simp only: zip_map_keys list.map)
  also have "\<dots> = map (apfst f) (group_pairs (zip ks xs) [])"
    by (rule group_pairs_rename[OF inj])
  finally show ?thesis by (simp only: map_snd_apfst)
qed

lemma fresh_inj:
  assumes "fresh u items"
  shows "inj_on u {..<length (filter (\<lambda>it. base_key it = None) items)}"
proof -
  let ?m = "length (filter (\<lambda>it. base_key it = None) items)"
  from assms have "distinct (map u [0..<?m])"
    unfolding fresh_def Let_def by (rule conjunct1)
  then have "inj_on u (set [0..<?m])" by (simp only: distinct_map)
  then show ?thesis by (simp add: lessThan_atLeast0)
qed

lemma fresh_base:
  assumes "fresh u items" "it \<in> set items" "base_key it = Some k"
  shows "k \<notin> u ` {..<length (filter (\<lambda>it. base_key it = None) items)}"
proof -
  let ?m = "length (filter (\<lambda>it. base_key it = None) items)"
  from assms(1) have "list_all (\<lambda>it. case base_key it of None \<Rightarrow> True
                                      | Some k \<Rightarrow> k \<notin> set (map u [0..<?m])) items"
    unfolding fresh_def Let_def by (rule conjunct2)
  with assms(2) have "case base_key it of None \<Rightarrow> True | Some k \<Rightarrow> k \<notin> set (map u [0..<?m])"
    by (simp only: list_all_iff)
  with assms(3) have "k \<notin> set (map u [0..<?m])" by simp
  then show ?thesis by (simp add: lessThan_atLeast0)
qed

lemma same_groups_for_fresh_draws:
  assumes f1: "fresh u1 items" and f2: "fresh u2 items"
  shows "map snd (group_evidence u1 items) = map snd (group_evidence u2 items)"
proof -
  define m where "m = length (filter (\<lambda>it. base_key it = None) items)"
  define f where "f = (\<lambda>k. if k \<in> u1 ` {..<m} then u2 (the_inv_into {..<m} u1 k) else k)"
  let ?ks1 = "item_keys u1 0 items" and ?ks2 = "item_keys u2 0 items"
  have inj1: "inj_on u1 {..<m}" and inj2: "inj_on u2 {..<m}"
    using fresh_inj[OF f1] fresh_inj[OF f2] by (simp_all add: m_def)
  have f_draw: "f (u1 c) = u2 c" if "c < m" for c
    using that inj1 by (simp add: f_def the_inv_into_f_f)
  have f_base: "f k = k" if "k \<notin> u1 ` {..<m}" for k
    using that by (simp add: f_def)
  have cnt: "length (filter (\<lambda>it. base_key it = None) (take i items)) < m"
    if "i < length items" "base_key (items ! i) = None" for i
    using that count_take_less[of i items "\<lambda>it. base_key it = None"] by (simp add: m_def)
  have base1: "k \<notin> u1 ` {..<m}" and base2: "k \<notin> u2 ` {..<m}"
    if "i < length items" "base_key (items ! i) = Some k" for i k
    using that fresh_base[OF f1, of "items ! i" k] fresh_base[OF f2, of "items ! i" k]
    by (simp_all add: m_def)
  have shape: "(\<exists>c<m. ?ks1 ! i = u1 c \<and> ?ks2 ! i = u2 c)
               \<or> (?ks1 ! i \<notin> u1 ` {..<m} \<and> ?ks2 ! i = ?ks1 ! i \<and> ?ks1 ! i \<notin> u2 ` {..<m})"
    if i: "i < length items" for i
  proof (cases "base_key (items ! i)")
    case None
    with cnt[OF i] show ?thesis by (auto simp: item_keys_nth[OF i])
  next
    case (Some k)
    with base1[OF i] base2[OF i] show ?thesis by (simp add: item_keys_nth[OF i])
  qed
  have nth: "f (?ks1 ! i) = ?ks2 ! i" if i: "i < length items" for i
    using shape[OF i] f_draw f_base by auto
  have map_f: "map f ?ks1 = ?ks2"
    by (rule nth_equalityI) (use nth in auto)
  have inj: "inj_on f (set ?ks1)"
  proof (rule inj_onI)
    fix a b assume "a \<in> set ?ks1" and "b \<in> set ?ks1" and eq: "f a = f b"
    then obtain i j where i: "i < length items" "a = ?ks1 ! i"
      and j: "j < length items" "b = ?ks1 ! j"
      by (auto simp: in_set_conv_nth)
    from eq i j nth have eq2: "?ks2 ! i = ?ks2 ! j" by simp
    from shape[OF i(1)] show "a = b"
    proof
      assume "\<exists>c<m. ?ks1 ! i = u1 c \<and> ?ks2 ! i = u2 c"
      then obtain c where c: "c < m" "?ks1 ! i = u1 c" "?ks2 ! i = u2 c" by blast
      from shape[OF j(1)] show ?thesis
      proof
        assume "\<exists>d<m. ?ks1 ! j = u1 d \<and> ?ks2 ! j = u2 d"
        then obtain d where d: "d < m" "?ks1 ! j = u1 d" "?ks2 ! j = u2 d" by blast
        from eq2 c d inj2 have "c = d" by (simp add: inj_on_def)
        with c d i j show ?thesis by simp
      next
        assume n: "?ks1 ! j \<notin> u1 ` {..<m} \<and> ?ks2 ! j = ?ks1 ! j \<and> ?ks1 ! j \<notin> u2 ` {..<m}"
        from c(1) have "u2 c \<in> u2 ` {..<m}" by simp
        with eq2 c(3) n have False by simp
        then show ?thesis ..
      qed
    next
      assume n: "?ks1 ! i \<notin> u1 ` {..<m} \<and> ?ks2 ! i = ?ks1 ! i \<and> ?ks1 ! i \<notin> u2 ` {..<m}"
      from shape[OF j(1)] show ?thesis
      proof
        assume "\<exists>d<m. ?ks1 ! j = u1 d \<and> ?ks2 ! j = u2 d"
        then obtain d where d: "d < m" "?ks1 ! j = u1 d" "?ks2 ! j = u2 d" by blast
        from d(1) have "u2 d \<in> u2 ` {..<m}" by simp
        with eq2 d(3) n have False by simp
        then show ?thesis ..
      next
        assume "?ks1 ! j \<notin> u1 ` {..<m} \<and> ?ks2 ! j = ?ks1 ! j \<and> ?ks1 ! j \<notin> u2 ` {..<m}"
        with eq2 n i j show ?thesis by simp
      qed
    qed
  qed
  from grouping_rename[OF inj, of items] map_f
  show ?thesis by (simp add: group_evidence_def group_loop_pairs)
qed

subsection \<open>Items whose title normalises to the empty string\<close>

text \<open>
  Claim C6, as amended. An item whose title (or keyword) normalises to the empty
  string and that has a non-empty \<open>source_id\<close> gets this \<open>source_id\<close> as its key.
  Its group holds exactly the items with that key, the item among them; it is alone
  in its group when no other item has this key.
\<close>

theorem empty_title_group_key:
  assumes "i < length items"
    and "normalize_title (title_or_keyword (items ! i)) = []"
    and "source_id (items ! i) = Some s" and "s \<noteq> []"
  shows "item_keys u 0 items ! i = s
         \<and> map_of (group_evidence u items) s = Some (members (item_keys u 0 items) items s)
         \<and> items ! i \<in> set (members (item_keys u 0 items) items s)
         \<and> ((\<forall>j<length items. j \<noteq> i \<longrightarrow> item_keys u 0 items ! j \<noteq> s) \<longrightarrow>
              map_of (group_evidence u items) s = Some [items ! i])"
proof -
  from assms(2-4) have b: "base_key (items ! i) = Some s"
    by (cases s) (simp_all add: base_key_def str_or_def)
  from item_keys_nth_base[OF assms(1) b] have k: "item_keys u 0 items ! i = s" .
  have mem: "items ! i \<in> set (members (item_keys u 0 items) items s)"
    unfolding members_def using assms(1) k by (intro nth_in_filter_zip) auto
  then have ne: "members (item_keys u 0 items) items s \<noteq> []" by auto
  have alone: "map_of (group_evidence u items) s = Some [items ! i]"
    if "\<forall>j<length items. j \<noteq> i \<longrightarrow> item_keys u 0 items ! j \<noteq> s"
  proof -
    from filter_zip_single[of "item_keys u 0 items" items i s] assms(1) k that
    have "members (item_keys u 0 items) items s = [items ! i]"
      by (simp add: members_def)
    then show ?thesis by (simp add: map_of_group_evidence)
  qed
  from k mem ne alone show ?thesis by (simp add: map_of_group_evidence)
qed

theorem empty_title_group_key_witness:
  "item_keys example_uuids 0
      [titled_item (Some ''n8n'') (Some ''youtube:abc''),
       titled_item (Some ''???'') (Some ''discourse:9'')] ! 1 = ''discourse:9''
   \<and> map_of (group_evidence example_uuids
        [titled_item (Some ''n8n'') (Some ''youtube:abc''),
         titled_item (Some ''???'') (Some ''discourse:9'')]) ''discourse:9''
      = Some [titled_item (Some ''???'') (Some ''discourse:9'')]"
proof -
  let ?ex = "[titled_item (Some ''n8n'') (Some ''youtube:abc''),
              titled_item (Some ''???'') (Some ''discourse:9'')]"
  have h1: "1 < length ?ex" by simp
  have h2: "normalize_title (title_or_keyword (?ex ! 1)) = []" by code_simp
  have h3: "source_id (?ex ! 1) = Some ''discourse:9''" by (simp add: titled_item_def)
  have h4: "''discourse:9'' \<noteq> []" by simp
  have keys: "item_keys example_uuids 0 ?ex = [''n8n'', ''discourse:9'']" by code_simp
  have h5: "\<forall>j<length ?ex. j \<noteq> 1 \<longrightarrow> item_keys example_uuids 0 ?ex ! j \<noteq> ''discourse:9''"
    unfolding keys by (auto simp: less_Suc_eq)
  have e: "?ex ! 1 = titled_item (Some ''???'') (Some ''discourse:9'')" by simp
  from empty_title_group_key[OF h1 h2 h3 h4, of example_uuids] h5
  have "item_keys example_uuids 0 ?ex ! 1 = ''discourse:9''
        \<and> map_of (group_evidence example_uuids ?ex) ''discourse:9'' = Some [?ex ! 1]"
    by blast
  then show ?thesis by (simp only: e)
qed

text \<open>
  Claim C6 as stated fails: an item without a title whose \<open>source_id\<close> is the
  normalised title of another item shares the group of that item.
\<close>

theorem shared_group_counterexample:
  "normalize_title (title_or_keyword (titled_item (Some '''') (Some ''n8n''))) = []
   \<and> group_evidence example_uuids
       [titled_item (Some ''n8n'') (Some ''youtube:abc''), titled_item (Some '''') (Some ''n8n'')]
     = [(''n8n'',
         [titled_item (Some ''n8n'') (Some ''youtube:abc''), titled_item (Some '''') (Some ''n8n'')])]"
  by code_simp

subsection \<open>Two runs over the same evidence\<close>

text \<open>
  Claim C8, as amended. Two runs over the same raw evidence, with the same weights,
  half-life and current time and with whatever fresh identifiers each run draws, give
  the same sequence of groups and so, group by group, the same outcome of
  \<open>aggregate_workflow\<close> (\<open>popularity_score\<close> and \<open>score_components\<close>, or the same
  exception). Whenever the title (or keyword) normalises to a non-empty string, the
  key of an item is that string: it depends on nothing else, neither on the position
  of the item nor on the other items nor on the draws.
\<close>

theorem two_runs_same_scores:
  "(fresh u1 items \<and> fresh u2 items \<longrightarrow>
      map (\<lambda>kg. aggregate_workflow fromiso now (snd kg) w) (group_evidence u1 items)
      = map (\<lambda>kg. aggregate_workflow fromiso now (snd kg) w) (group_evidence u2 items))
   \<and> (i < length xs \<and> j < length ys
        \<and> title_or_keyword (xs ! i) = title_or_keyword (ys ! j)
        \<and> normalize_title (title_or_keyword (xs ! i)) \<noteq> [] \<longrightarrow>
        item_keys u1 0 xs ! i = normalize_title (title_or_keyword (xs ! i))
        \<and> item_keys u2 0 ys ! j = item_keys u1 0 xs ! i)"
proof (intro conjI impI)
  assume f: "fresh u1 items \<and> fresh u2 items"
  with same_groups_for_fresh_draws[of u1 items u2]
  have "map snd (group_evidence u1 items) = map snd (group_evidence u2 items)" by simp
  then have "map (\<lambda>ev. aggregate_workflow fromiso now ev w) (map snd (group_evidence u1 items))
      = map (\<lambda>ev. aggregate_workflow fromiso now ev w) (map snd (group_evidence u2 items))"
    by (rule arg_cong)
  then show "map (\<lambda>kg. aggregate_workflow fromiso now (snd kg) w) (group_evidence u1 items)
      = map (\<lambda>kg. aggregate_workflow fromiso now (snd kg) w) (group_evidence u2 items)"
    by (simp only: map_map comp_def)
next
  assume a: "i < length xs \<and> j < length ys
        \<and> title_or_keyword (xs ! i) = title_or_keyword (ys ! j)
        \<and> normalize_title (title_or_keyword (xs ! i)) \<noteq> []"
  then have bx: "base_key (xs ! i) = Some (normalize_title (title_or_keyword (xs ! i)))"
    and by': "base_key (ys ! j) = Some (normalize_title (title_or_keyword (xs ! i)))"
    by (auto simp: base_key_def Let_def)
  from a item_keys_nth_base[OF _ bx]
  show k1: "item_keys u1 0 xs ! i = normalize_title (title_or_keyword (xs ! i))" by simp
  from a item_keys_nth_base[OF _ by', of u2 0] k1
  show "item_keys u2 0 ys ! j = item_keys u1 0 xs ! i" by simp
qed

theorem two_runs_same_scores_witness:
  "fresh example_uuids four_items \<and> fresh other_uuids four_items
   \<and> map (\<lambda>kg. aggregate_workflow example_fromiso 0 (snd kg) None)
        (group_evidence example_uuids four_items)
     = map (\<lambda>kg. aggregate_workflow example_fromiso 0 (snd kg) None)
        (group_evidence other_uuids four_items)
   \<and> item_keys example_uuids 0 four_items ! 0 = ''n8n tutorial''
   \<and> item_keys other_uuids 0 (rev four_items) ! 3 = ''n8n tutorial''"
proof -
  have f1: "fresh example_uuids four_items" by code_simp
  have f2: "fresh other_uuids four_items" by code_simp
  have h: "0 < length four_items \<and> 3 < length (rev four_items)
        \<and> title_or_keyword (four_items ! 0) = title_or_keyword (rev four_items ! 3)
        \<and> normalize_title (title_or_keyword (four_items ! 0)) \<noteq> []"
    by code_simp
  have n: "normalize_title (title_or_keyword (four_items ! 0)) = ''n8n tutorial''"
    by code_simp
  from two_runs_same_scores[of example_uuids four_items other_uuids example_fromiso 0 None
      0 four_items 3 "rev four_items"] f1 f2 h n
  show ?thesis by simp
qed

text \<open>
  Claim C8 as stated fails for a title that normalises to the empty string: two items
  with the same title and different \<open>source_id\<close> get different keys.
\<close>

theorem same_title_other_key_counterexample:
  "title (titled_item (Some ''???'') (Some ''youtube:a''))
     = title (titled_item (Some ''???'') (Some ''youtube:b''))
   \<and> item_keys example_uuids 0
        [titled_item (Some ''???'') (Some ''youtube:a''),
         titled_item (Some ''???'') (Some ''youtube:b'')]
      = [''youtube:a'', ''youtube:b'']"
  by code_simp

section \<open>Properties of the summed totals\<close>


lemma contribution_JNull [simp]: "contribution JNull = 0"
  by (simp add: contribution_def py_or_def add_or_pass_def)










text \<open>
  \<open>run_ingest\<close> scores a group (\<open>aggregate_workflow(evidence)\<close>, line 122) before it
  sums the totals; on the group with the views 100, 0 and \<open>"bad"\<close> the scoring raises
  \<open>TypeError\<close> at \<open>max(0.0, "bad")\<close>.
\<close>

lemma scoring_raises_on_non_numeric_views:
  "aggregate_workflow fromiso now
     [video_item [(''views'', JInt 100)], video_item [(''views'', JInt 0)],
      video_item [(''views'', JStr ''bad'')]] w = Inl TypeError"
  using in_range_examples float_lim_pos
  by (simp add: aggregate_workflow_def compute_item_scores_def video_item_def item_metrics_def
      dget_def py_or_def log1p_norm_def py_max0_def ratio_to_views_def py_truediv_def Let_def)

section \<open>Properties of the fetch clients\<close>

lemma discourse_loop_exhausted:
  "(\<forall>i<left. \<not> is_ok (tr (k + i))) \<Longrightarrow> discourse_loop tr left k = (JDict [], k + left)"
proof (induction left arbitrary: k)
  case 0
  then show ?case by simp
next
  case (Suc left)
  from Suc.prems have now: "\<not> is_ok (tr k)" by (metis add.right_neutral zero_less_Suc)
  from Suc.prems have "\<forall>i<left. \<not> is_ok (tr (Suc k + i))" by auto
  then have "discourse_loop tr left (Suc k) = (JDict [], Suc k + left)" by (rule Suc.IH)
  with now show ?case by (auto simp: is_ok_def split: response.splits)
qed

lemma discourse_loop_ok:
  "(\<forall>i<n. \<not> is_ok (tr (k + i))) \<Longrightarrow> n < left \<Longrightarrow> tr (k + n) = Status 200 (Some j) \<Longrightarrow>
   discourse_loop tr left k = (j, Suc (k + n))"
proof (induction n arbitrary: k left)
  case 0
  then obtain l where "left = Suc l" by (cases left) auto
  with 0 show ?case by simp
next
  case (Suc n)
  then obtain l where l: "left = Suc l" by (cases left) auto
  from Suc.prems have now: "\<not> is_ok (tr k)" by (metis add.right_neutral zero_less_Suc)
  from Suc.prems have "\<forall>i<n. \<not> is_ok (tr (Suc k + i))" by auto
  moreover from Suc.prems l have "n < l" "tr (Suc k + n) = Status 200 (Some j)" by auto
  ultimately have "discourse_loop tr l (Suc k) = (j, Suc (Suc k + n))" by (rule Suc.IH)
  with now l show ?case by (auto simp: is_ok_def split: response.splits)
qed

lemma yt_loop_exhausted:
  "(\<forall>i<left. \<not> is_ok (tr (requests st + i))) \<Longrightarrow>
   fst (yt_loop nk tr left st) = Inl RuntimeError
   \<and> requests (snd (yt_loop nk tr left st)) = requests st + left"
proof (induction left arbitrary: st)
  case 0
  then show ?case by simp
next
  case (Suc left)
  from Suc.prems have now: "\<not> is_ok (tr (requests st))"
    by (metis add.right_neutral zero_less_Suc)
  have step: "fst (yt_loop nk tr left st') = Inl RuntimeError
     \<and> requests (snd (yt_loop nk tr left st')) = requests st' + left"
    if "requests st' = Suc (requests st)" for st'
  proof (rule Suc.IH)
    from Suc.prems that show "\<forall>i<left. \<not> is_ok (tr (requests st' + i))" by auto
  qed
  show ?case
  proof (cases "tr (requests st)")
    case TransportError
    with step[of "yt_sleep (st\<lparr>requests := Suc (requests st)\<rparr>)"]
    show ?thesis by (simp add: yt_sleep_def Let_def)
  next
    case (Status code body)
    with now have c: "code \<noteq> 200" by (simp add: is_ok_def)
    from step[of "yt_sleep (yt_rotate nk (st\<lparr>requests := Suc (requests st)\<rparr>))"]
         step[of "yt_sleep (st\<lparr>requests := Suc (requests st)\<rparr>)"]
         step[of "st\<lparr>requests := Suc (requests st)\<rparr>"]
         Status c
    show ?thesis by (simp add: yt_sleep_def yt_rotate_def Let_def)
  qed
qed

lemma yt_loop_ok:
  "(\<forall>i<n. \<not> is_ok (tr (requests st + i))) \<Longrightarrow> n < left \<Longrightarrow>
   tr (requests st + n) = Status 200 (Some j) \<Longrightarrow>
   fst (yt_loop nk tr left st) = Inr j
   \<and> requests (snd (yt_loop nk tr left st)) = Suc (requests st + n)"
proof (induction n arbitrary: st left)
  case 0
  then obtain l where "left = Suc l" by (cases left) auto
  with 0 show ?case by (simp add: Let_def)
next
  case (Suc n)
  then obtain l where l: "left = Suc l" by (cases left) auto
  from Suc.prems have now: "\<not> is_ok (tr (requests st))"
    by (metis add.right_neutral zero_less_Suc)
  have step: "fst (yt_loop nk tr l st') = Inr j
     \<and> requests (snd (yt_loop nk tr l st')) = Suc (requests st' + n)"
    if "requests st' = Suc (requests st)" for st'
  proof (rule Suc.IH)
    from Suc.prems that show "\<forall>i<n. \<not> is_ok (tr (requests st' + i))" by auto
    from Suc.prems l show "n < l" by simp
    from Suc.prems that show "tr (requests st' + n) = Status 200 (Some j)" by simp
  qed
  show ?case
  proof (cases "tr (requests st)")
    case TransportError
    with step[of "yt_sleep (st\<lparr>requests := Suc (requests st)\<rparr>)"] l
    show ?thesis by (simp add: yt_sleep_def Let_def)
  next
    case (Status code body)
    with now have c: "code \<noteq> 200" by (simp add: is_ok_def)
    from step[of "yt_sleep (yt_rotate nk (st\<lparr>requests := Suc (requests st)\<rparr>))"]
         step[of "yt_sleep (st\<lparr>requests := Suc (requests st)\<rparr>)"]
         step[of "st\<lparr>requests := Suc (requests st)\<rparr>"]
         Status c l
    show ?thesis by (simp add: yt_sleep_def yt_rotate_def Let_def)
  qed
qed

lemma busy_not_ok: "k < n \<Longrightarrow> \<not> is_ok (busy_then_ok n 429 payload k)"
  by (simp add: busy_then_ok_def is_ok_def)

text \<open>
  Claim C2, as amended. \<open>retries\<close> is the number of requests a call may make. When
  the transport answers fewer than \<open>retries\<close> times with 429 and then with 200, both
  clients return the payload of the 200 response. When it answers \<open>retries\<close> times or
  more with 429, the budget is used up before the 200 response is asked for: the
  Discourse client returns the empty dict and the YouTube client raises
  \<open>RuntimeError\<close>. The same holds for any transport that gives no 200 response to the
  first \<open>retries\<close> requests.
\<close>

theorem fetch_retry_budget:
  "(n < retries \<longrightarrow>
      discourse_get (busy_then_ok n 429 payload) retries = (payload, Suc n)
      \<and> fst (yt_get n_keys key0 (busy_then_ok n 429 payload) retries) = Inr payload
      \<and> requests (snd (yt_get n_keys key0 (busy_then_ok n 429 payload) retries)) = Suc n)
   \<and> (retries \<le> n \<longrightarrow>
      discourse_get (busy_then_ok n 429 payload) retries = (JDict [], retries)
      \<and> fst (yt_get n_keys key0 (busy_then_ok n 429 payload) retries) = Inl RuntimeError
      \<and> requests (snd (yt_get n_keys key0 (busy_then_ok n 429 payload) retries)) = retries)
   \<and> ((\<forall>k<retries. \<not> is_ok (transport k)) \<longrightarrow>
      discourse_get transport retries = (JDict [], retries)
      \<and> fst (yt_get n_keys key0 transport retries) = Inl RuntimeError)"
proof (intro conjI impI)
  let ?tr = "busy_then_ok n 429 payload"
  let ?st = "\<lparr>key_index = key0, backoff = 1, slept = [], requests = 0\<rparr>"
  {
    assume n: "n < retries"
    have busy: "\<forall>i<n. \<not> is_ok (?tr (0 + i))" by (simp add: busy_not_ok)
    have ok: "?tr (0 + n) = Status 200 (Some payload)" by (simp add: busy_then_ok_def)
    from discourse_loop_ok[OF busy n ok]
    show "discourse_get ?tr retries = (payload, Suc n)" by (simp add: discourse_get_def)
    have busy': "\<forall>i<n. \<not> is_ok (?tr (requests ?st + i))" by (simp add: busy_not_ok)
    have ok': "?tr (requests ?st + n) = Status 200 (Some payload)" by (simp add: busy_then_ok_def)
    from yt_loop_ok[OF busy' n ok', of n_keys]
    show "fst (yt_get n_keys key0 ?tr retries) = Inr payload"
      and "requests (snd (yt_get n_keys key0 ?tr retries)) = Suc n"
      by (simp_all add: yt_get_def)
  }
  {
    assume n: "retries \<le> n"
    then have busy: "\<forall>i<retries. \<not> is_ok (?tr (0 + i))" by (simp add: busy_not_ok)
    from discourse_loop_exhausted[OF busy]
    show "discourse_get ?tr retries = (JDict [], retries)" by (simp add: discourse_get_def)
    from n have busy': "\<forall>i<retries. \<not> is_ok (?tr (requests ?st + i))" by (simp add: busy_not_ok)
    from yt_loop_exhausted[OF busy', of n_keys]
    show "fst (yt_get n_keys key0 ?tr retries) = Inl RuntimeError"
      and "requests (snd (yt_get n_keys key0 ?tr retries)) = retries"
      by (simp_all add: yt_get_def)
  }
  {
    assume a: "\<forall>k<retries. \<not> is_ok (transport k)"
    then have b: "\<forall>i<retries. \<not> is_ok (transport (0 + i))" by simp
    from discourse_loop_exhausted[OF b]
    show "discourse_get transport retries = (JDict [], retries)" by (simp add: discourse_get_def)
    from a have b': "\<forall>i<retries. \<not> is_ok (transport (requests ?st + i))" by simp
    from yt_loop_exhausted[OF b', of n_keys]
    show "fst (yt_get n_keys key0 transport retries) = Inl RuntimeError"
      by (simp add: yt_get_def)
  }
qed

theorem fetch_retry_budget_witness:
  "discourse_get (busy_then_ok 2 429 (JDict [(''items'', JList [])])) 3
     = (JDict [(''items'', JList [])], 3)
   \<and> fst (yt_get 2 0 (busy_then_ok 2 429 (JDict [(''items'', JList [])])) 3)
     = Inr (JDict [(''items'', JList [])])
   \<and> discourse_get (busy_then_ok 3 429 (JDict [(''items'', JList [])])) 3 = (JDict [], 3)
   \<and> fst (yt_get 2 0 (busy_then_ok 3 429 (JDict [(''items'', JList [])])) 3) = Inl RuntimeError
   \<and> discourse_get (\<lambda>k. TransportError) 3 = (JDict [], 3)"
proof -
  have t: "\<forall>k<(3::nat). \<not> is_ok ((\<lambda>k. TransportError) k)" by (simp add: is_ok_def)
  from fetch_retry_budget[of 2 3 "JDict [(''items'', JList [])]" 2 0 "\<lambda>k. TransportError"]
       fetch_retry_budget[of 3 3 "JDict [(''items'', JList [])]" 2 0 "\<lambda>k. TransportError"] t
  show ?thesis by simp
qed

text \<open>
  Claim C2 as stated fails: with \<open>retries = 3\<close>, three responses 429 use up the three
  requests; the Discourse client returns \<open>{}\<close>, the YouTube client raises.
\<close>

theorem three_429_then_200_counterexample:
  "discourse_get (busy_then_ok 3 429 (JDict [(''items'', JList [])])) 3 = (JDict [], 3)
   \<and> yt_get 2 0 (busy_then_ok 3 429 (JDict [(''items'', JList [])])) 3
     = (Inl RuntimeError, \<lparr>key_index = 1, backoff = 8, slept = [1, 2, 4], requests = 3\<rparr>)"
  by code_simp

section \<open>Properties of the storage upsert\<close>

lemma do_update_frame:
  "r_id (do_update existing excluded) = r_id existing
   \<and> r_source_id (do_update existing excluded) = r_source_id existing
   \<and> r_created_at (do_update existing excluded) = r_created_at existing"
  by (simp add: do_update_def)

lemma do_update_set:
  "r_workflow (do_update existing excluded) = r_workflow excluded
   \<and> r_platform (do_update existing excluded) = r_platform excluded
   \<and> r_source_url (do_update existing excluded) = r_source_url excluded
   \<and> r_keywords (do_update existing excluded) = r_keywords excluded
   \<and> r_country (do_update existing excluded) = r_country excluded
   \<and> r_popularity_metrics (do_update existing excluded) = r_popularity_metrics excluded
   \<and> r_popularity_score (do_update existing excluded) = r_popularity_score excluded
   \<and> r_score_components (do_update existing excluded) = r_score_components excluded
   \<and> r_last_updated (do_update existing excluded) = r_last_updated excluded
   \<and> r_evidence_count (do_update existing excluded) = r_evidence_count excluded"
  by (simp add: do_update_def)

lemma map_update_unique:
  "distinct (map f tbl) \<Longrightarrow> old \<in> set tbl \<Longrightarrow>
   map (\<lambda>r. if f r = f old then g r else r) tbl = map (\<lambda>r. if r = old then g old else r) tbl"
proof (induction tbl)
  case Nil
  then show ?case by simp
next
  case (Cons a tbl)
  show ?case
  proof (cases "a = old")
    case True
    with Cons.prems have nin: "f old \<notin> f ` set tbl" by simp
    have "\<forall>r\<in>set tbl. f r \<noteq> f old \<and> r \<noteq> old"
    proof
      fix r assume "r \<in> set tbl"
      then have "f r \<in> f ` set tbl" by (rule imageI)
      with nin show "f r \<noteq> f old \<and> r \<noteq> old" by metis
    qed
    then have "map (\<lambda>r. if f r = f old then g r else r) tbl = tbl"
      and "map (\<lambda>r. if r = old then g old else r) tbl = tbl"
      by (simp_all add: map_idI)
    with True show ?thesis by simp
  next
    case False
    with Cons.prems have o: "old \<in> set tbl" and d: "distinct (map f tbl)" by auto
    from Cons.prems o have "f a \<noteq> f old" by auto
    with False Cons.IH[OF d o] show ?thesis by simp
  qed
qed

text \<open>
  Claim C10. When a canonical item is upserted whose \<open>source_id\<close> is that of a stored
  row, the upsert succeeds and changes that row only: its columns \<open>workflow\<close>,
  \<open>platform\<close>, \<open>source_url\<close>, \<open>keywords\<close>, \<open>country\<close>, \<open>popularity_metrics\<close>,
  \<open>popularity_score\<close>, \<open>score_components\<close>, \<open>last_updated\<close> and \<open>evidence_count\<close> take
  the values built from the item, and its \<open>id\<close> and \<open>source_id\<close> (and \<open>created_at\<close>)
  stay as they were.
\<close>

theorem upsert_conflict_frame:
  assumes "old \<in> set tbl" and "distinct (map r_source_id tbl)"
    and "c_source_id item = r_source_id old" and "c_source_id item \<noteq> None"
    and "c_workflow item \<noteq> None" and "c_platform item \<noteq> None"
  shows "upsert_to_db fromiso uuids db_now [item] tbl
           = (True, map (\<lambda>r. if r = old
                               then do_update old (build_row fromiso (uuids 0) db_now item)
                               else r) tbl)
         \<and> r_id (do_update old (build_row fromiso (uuids 0) db_now item)) = r_id old
         \<and> r_source_id (do_update old (build_row fromiso (uuids 0) db_now item)) = r_source_id old
         \<and> r_created_at (do_update old (build_row fromiso (uuids 0) db_now item)) = r_created_at old
         \<and> do_update old (build_row fromiso (uuids 0) db_now item)
           = old\<lparr>r_workflow := c_workflow item,
                  r_platform := c_platform item,
                  r_source_url := c_source_url item,
                  r_keywords := Some (json_or (c_keywords item) (JList [])),
                  r_country := c_country item,
                  r_popularity_metrics := Some (json_or (c_popularity_metrics item) (JDict [])),
                  r_popularity_score := Some (case c_popularity_score item of None \<Rightarrow> 0 | Some x \<Rightarrow> x),
                  r_score_components := Some (json_or (c_score_components item) (JDict [])),
                  r_last_updated :=
                    (case c_last_updated item of
                       None \<Rightarrow> None
                     | Some (TsDatetime d) \<Rightarrow> Some d
                     | Some (TsStr s) \<Rightarrow> fromiso (rstrip_Z s)),
                  r_evidence_count := Some (case c_evidence_count item of None \<Rightarrow> 0 | Some n \<Rightarrow> n)\<rparr>"
proof -
  let ?row = "build_row fromiso (uuids 0) db_now item"
  have sid: "r_source_id ?row = r_source_id old" using assms(3) by (simp add: build_row_def)
  have "r_id ?row \<noteq> None" by (simp add: build_row_def str_or_def split: option.splits list.splits)
  with assms(4-6) have nn: "not_null_ok ?row" by (simp add: not_null_ok_def build_row_def)
  from assms(1) sid have conflict: "r_source_id ?row \<in> set (map r_source_id tbl)" by auto
  from nn conflict have "execute_upsert ?row tbl
      = Inr (map (\<lambda>r. if r_source_id r = r_source_id old then do_update r ?row else r) tbl)"
    by (simp add: execute_upsert_def sid)
  also have "map (\<lambda>r. if r_source_id r = r_source_id old then do_update r ?row else r) tbl
      = map (\<lambda>r. if r = old then do_update old ?row else r) tbl"
    using map_update_unique[OF assms(2,1), of "\<lambda>r. do_update r ?row"] .
  finally have ex: "execute_upsert ?row tbl
      = Inr (map (\<lambda>r. if r = old then do_update old ?row else r) tbl)" .
  then have "upsert_to_db fromiso uuids db_now [item] tbl
           = (True, map (\<lambda>r. if r = old then do_update old ?row else r) tbl)"
    by (simp add: upsert_to_db_def)
  moreover have "do_update old ?row
           = old\<lparr>r_workflow := c_workflow item,
                  r_platform := c_platform item,
                  r_source_url := c_source_url item,
                  r_keywords := Some (json_or (c_keywords item) (JList [])),
                  r_country := c_country item,
                  r_popularity_metrics := Some (json_or (c_popularity_metrics item) (JDict [])),
                  r_popularity_score := Some (case c_popularity_score item of None \<Rightarrow> 0 | Some x \<Rightarrow> x),
                  r_score_components := Some (json_or (c_score_components item) (JDict [])),
                  r_last_updated :=
                    (case c_last_updated item of
                       None \<Rightarrow> None
                     | Some (TsDatetime d) \<Rightarrow> Some d
                     | Some (TsStr s) \<Rightarrow> fromiso (rstrip_Z s)),
                  r_evidence_count := Some (case c_evidence_count item of None \<Rightarrow> 0 | Some n \<Rightarrow> n)\<rparr>"
    by (simp add: do_update_def build_row_def)
  ultimately show ?thesis using do_update_frame[of old ?row] by simp
qed

theorem upsert_conflict_frame_witness:
  "upsert_to_db example_fromiso example_uuids 1706659200 [new_item] [other_row, stored_row]
     = (True,
        [other_row,
         stored_row\<lparr>r_workflow := Some ''N8N Tutorial'', r_platform := Some ''mixed'',
                    r_source_url := Some ''https://youtu.be/abc'', r_country := Some ''US'',
                    r_popularity_metrics := Some (JDict [(''views'', JInt 100)]),
                    r_popularity_score := Some (1 / 2),
                    r_last_updated := Some (Aware 1706659200),
                    r_evidence_count := Some 3\<rparr>])"
proof -
  have h1: "stored_row \<in> set [other_row, stored_row]" by simp
  have h2: "distinct (map r_source_id [other_row, stored_row])"
    by (simp add: other_row_def stored_row_def)
  have h3: "c_source_id new_item = r_source_id stored_row"
    by (simp add: new_item_def stored_row_def)
  have h4: "c_source_id new_item \<noteq> None" "c_workflow new_item \<noteq> None" "c_platform new_item \<noteq> None"
    by (simp_all add: new_item_def)
  have ne: "other_row \<noteq> stored_row" by (simp add: other_row_def stored_row_def)
  have rz: "rstrip_Z ''2024-01-31T00:00:00+00:00'' = ''2024-01-31T00:00:00+00:00''"
    by (simp add: rstrip_Z_def)
  from upsert_conflict_frame[OF h1 h2 h3 h4, of example_fromiso example_uuids 1706659200] ne rz
  show ?thesis
    by (simp add: new_item_def stored_row_def json_or_def py_or_def example_fromiso_def)
qed

end
